theory Spec2Isabelle
  imports Complex_Main "HOL-Library.Multiset"
begin

section \<open>Data model of the simulation engine\<close>

text \<open>
  The engine works on JavaScript numbers. Node ids, indices and counts are modelled as
  natural numbers or integers, coordinates, probabilities and random draws as reals
  (no rounding error, no NaN), except for the target degree of generateNetwork, whose
  value depends on the rounding and is computed in double precision. The fields \<open>id\<close>, \<open>x\<close>, \<open>y\<close>, \<open>vx\<close>, \<open>vy\<close> of a node carry a
  suffix, since their plain names are taken in HOL or would capture bound variables.
\<close>

datatype NodeState = Healthy | Infected | Recovered | Aware

record SimNode =
  id_node :: nat
  x_coord :: real
  y_coord :: real
  vx_vel :: real
  vy_vel :: real
  state :: NodeState
  infectedAt :: int
  connections :: "nat list"

record SimEdge =
  source :: nat
  target :: nat

record SimStats =
  tick :: int
  healthy :: nat
  infected :: nat
  recovered :: nat
  aware :: nat

record SimConfig =
  nodeCount :: int
  connectionDensity :: real
  spreadProbability :: real
  recoveryTime :: int
  initialInfected :: int

text \<open>Reading a property of \<open>undefined\<close> and building an array of negative length throw.\<close>

datatype error = TypeError | RangeError

text \<open>
  \<open>Math.random()\<close> is a stream of draws \<open>rnd 0\<close>, \<open>rnd 1\<close>, ... read through a counter that
  every function threads along. The result of \<open>sort(() => Math.random() - 0.5)\<close>, whose
  order depends on the sorting algorithm, is a parameter \<open>shuffle\<close>; a sort returns a
  permutation of its array, and the properties that rely on this assume
  \<open>mset (shuffle xs) = mset xs\<close>. The copy \<open>nodes.map(n => ({...n}))\<close> made by every
  operation is the list itself, lists being values.
\<close>

type_synonym rnd = "nat \<Rightarrow> real"

section \<open>getStats\<close>

definition getStats :: "SimNode list \<Rightarrow> int \<Rightarrow> SimStats" where
  "getStats nodes tk =
     \<lparr> tick = tk,
       healthy = length (filter (\<lambda>n. state n = Healthy) nodes),
       infected = length (filter (\<lambda>n. state n = Infected) nodes),
       recovered = length (filter (\<lambda>n. state n = Recovered) nodes),
       aware = length (filter (\<lambda>n. state n = Aware) nodes) \<rparr>"

definition countSum :: "SimStats \<Rightarrow> nat" where
  "countSum s = healthy s + infected s + recovered s + aware s"


section \<open>generateNetwork\<close>

definition mkNode :: "rnd \<Rightarrow> real \<Rightarrow> real \<Rightarrow> nat \<Rightarrow> SimNode" where
  "mkNode rnd width height i =
     \<lparr> id_node = i,
       x_coord = 60 + rnd (2 * i) * (width - 60 * 2),
       y_coord = 60 + rnd (2 * i + 1) * (height - 60 * 2),
       vx_vel = 0, vy_vel = 0,
       state = Healthy, infectedAt = - 1, connections = [] \<rparr>"

definition placeNodes :: "rnd \<Rightarrow> real \<Rightarrow> real \<Rightarrow> nat \<Rightarrow> SimNode list" where
  "placeNodes rnd width height n = map (mkNode rnd width height) [0..<n]"

definition hypot :: "real \<Rightarrow> real \<Rightarrow> real" where
  "hypot a b = sqrt (a * a + b * b)"

text \<open>The other nodes with their distance to node \<open>i\<close>, nearest first (the sort is stable).\<close>

definition distances :: "SimNode list \<Rightarrow> nat \<Rightarrow> (nat \<times> real) list" where
  "distances nodes i =
     sort_key snd
       (filter (\<lambda>d. fst d \<noteq> i)
         (map (\<lambda>j. (j, hypot (x_coord (nodes ! j) - x_coord (nodes ! i))
                              (y_coord (nodes ! j) - y_coord (nodes ! i))))
              [0..<length nodes]))"

text \<open>
  The target degree is computed in double precision, and the rounding of the sum decides
  its value for draws just below 1. \<open>dbl\<close> rounds a real to the nearest number with 53
  significant bits, ties to the even one (the exponent is not bounded: no overflow and no
  subnormal numbers); \<open>ulp x\<close> is the spacing of these numbers at \<open>x\<close>. Every
  arithmetic operation of the target degree is rounded.
\<close>

definition roundEven :: "real \<Rightarrow> int" where
  "roundEven y =
     (if y - of_int \<lfloor>y\<rfloor> < 1 / 2 then \<lfloor>y\<rfloor>
      else if 1 / 2 < y - of_int \<lfloor>y\<rfloor> then \<lfloor>y\<rfloor> + 1
      else if even \<lfloor>y\<rfloor> then \<lfloor>y\<rfloor> else \<lfloor>y\<rfloor> + 1)"

definition ulp :: "real \<Rightarrow> real" where
  "ulp x = 2 powr of_int (\<lfloor>log 2 \<bar>x\<bar>\<rfloor> - 52)"

definition dbl :: "real \<Rightarrow> real" where
  "dbl x = (if x = 0 then 0 else of_int (roundEven (x / ulp x)) * ulp x)"

definition targetConns :: "real \<Rightarrow> real \<Rightarrow> int" where
  "targetConns density r = max 1 \<lfloor>dbl (density + dbl (dbl (r - 0.5) * 2))\<rfloor>"

definition pushConn :: "nat \<Rightarrow> nat \<Rightarrow> SimNode list \<Rightarrow> SimNode list" where
  "pushConn a b nodes = nodes[a := (nodes ! a)\<lparr>connections := connections (nodes ! a) @ [b]\<rparr>]"

definition addEdge :: "nat \<Rightarrow> nat \<Rightarrow> SimNode list \<Rightarrow> SimNode list" where
  "addEdge i j nodes = pushConn j i (pushConn i j nodes)"

text \<open>
  The walk over the sorted candidates of node \<open>i\<close>. The state is the node array, the edge
  list, the number of edges added for \<open>i\<close> and the counter of the random stream. The draw
  is taken before \<open>added === 0\<close> is looked at.
\<close>

fun connectLoop :: "rnd \<Rightarrow> real \<Rightarrow> int \<Rightarrow> nat \<Rightarrow> (nat \<times> real) list
    \<Rightarrow> SimNode list \<times> SimEdge list \<times> nat \<times> nat
    \<Rightarrow> SimNode list \<times> SimEdge list \<times> nat \<times> nat" where
  "connectLoop rnd maxDist tc i [] s = s"
| "connectLoop rnd maxDist tc i ((j, dst) # ds) (nodes, edges, added, k) =
     (if int added \<ge> tc then (nodes, edges, added, k)
      else if j \<in> set (connections (nodes ! i))
        then connectLoop rnd maxDist tc i ds (nodes, edges, added, k)
      else if rnd k < exp (- dst / (maxDist * 0.15)) \<or> added = 0
        then connectLoop rnd maxDist tc i ds
               (addEdge i j nodes, edges @ [\<lparr>source = i, target = j\<rparr>], added + 1, Suc k)
      else connectLoop rnd maxDist tc i ds (nodes, edges, added, Suc k))"

fun edgeLoop :: "rnd \<Rightarrow> SimConfig \<Rightarrow> real \<Rightarrow> nat list
    \<Rightarrow> SimNode list \<times> SimEdge list \<times> nat \<Rightarrow> SimNode list \<times> SimEdge list \<times> nat" where
  "edgeLoop rnd cfg maxDist [] s = s"
| "edgeLoop rnd cfg maxDist (i # rest) (nodes, edges, k) =
     (case connectLoop rnd maxDist (targetConns (connectionDensity cfg) (rnd k)) i
             (distances nodes i) (nodes, edges, 0, Suc k) of
        (nodes', edges', added, k') \<Rightarrow> edgeLoop rnd cfg maxDist rest (nodes', edges', k'))"

text \<open>
  Seeding: \<open>shuffled[i]\<close> is \<open>undefined\<close> beyond the end of the array, \<open>nodes[undefined]\<close> is
  \<open>undefined\<close>, and the assignment to its \<open>state\<close> throws.
\<close>

fun seedLoop :: "nat list \<Rightarrow> nat list \<Rightarrow> SimNode list \<Rightarrow> error + SimNode list" where
  "seedLoop shuffled [] nodes = Inr nodes"
| "seedLoop shuffled (i # rest) nodes =
     (if i < length shuffled \<and> shuffled ! i < length nodes
      then seedLoop shuffled rest
             (nodes[shuffled ! i := (nodes ! (shuffled ! i))\<lparr>state := Infected, infectedAt := 0\<rparr>])
      else Inl TypeError)"

definition generateNetwork :: "SimConfig \<Rightarrow> real \<Rightarrow> real \<Rightarrow> rnd \<Rightarrow> (nat list \<Rightarrow> nat list)
    \<Rightarrow> error + SimNode list \<times> SimEdge list" where
  "generateNetwork cfg width height rnd shuffle =
     (let n = nat (nodeCount cfg);
          maxDist = sqrt (width * width + height * height)
      in case edgeLoop rnd cfg maxDist [0..<n] (placeNodes rnd width height n, [], 2 * n) of
           (nodes, edges, k) \<Rightarrow>
             if nodeCount cfg < 0 then Inl RangeError
             else (case seedLoop (shuffle [0..<n]) [0..<nat (initialInfected cfg)] nodes of
                     Inl e \<Rightarrow> Inl e
                   | Inr nodes' \<Rightarrow> Inr (nodes', edges)))"

section \<open>simulationTick\<close>

text \<open>The spread from one infected node: a draw is taken only for a healthy neighbour.\<close>

fun spread :: "rnd \<Rightarrow> SimConfig \<Rightarrow> int \<Rightarrow> nat list \<Rightarrow> SimNode list \<times> nat
    \<Rightarrow> error + SimNode list \<times> nat" where
  "spread rnd cfg tk [] s = Inr s"
| "spread rnd cfg tk (neighborId # rest) (updated, k) =
     (if neighborId < length updated then
        (if state (updated ! neighborId) = Healthy then
           (if rnd k < spreadProbability cfg
            then spread rnd cfg tk rest
                   (updated[neighborId := (updated ! neighborId)\<lparr>state := Infected, infectedAt := tk\<rparr>],
                    Suc k)
            else spread rnd cfg tk rest (updated, Suc k))
         else spread rnd cfg tk rest (updated, k))
      else Inl TypeError)"

text \<open>The body of the loop over \<open>updated\<close> for the node at index \<open>i\<close>.\<close>

definition tickNode :: "rnd \<Rightarrow> SimConfig \<Rightarrow> int \<Rightarrow> nat \<Rightarrow> SimNode list \<times> nat
    \<Rightarrow> error + SimNode list \<times> nat" where
  "tickNode rnd cfg tk i s =
     (case s of (updated, k) \<Rightarrow>
        if state (updated ! i) = Infected then
          (case spread rnd cfg tk (connections (updated ! i)) (updated, k) of
             Inl e \<Rightarrow> Inl e
           | Inr (updated', k') \<Rightarrow>
               if tk - infectedAt (updated' ! i) \<ge> recoveryTime cfg
               then Inr (updated'[i := (updated' ! i)\<lparr>state := Recovered\<rparr>], k')
               else Inr (updated', k'))
        else Inr (updated, k))"

fun tickLoop :: "rnd \<Rightarrow> SimConfig \<Rightarrow> int \<Rightarrow> nat list \<Rightarrow> SimNode list \<times> nat
    \<Rightarrow> error + SimNode list \<times> nat" where
  "tickLoop rnd cfg tk [] s = Inr s"
| "tickLoop rnd cfg tk (i # rest) s =
     (case tickNode rnd cfg tk i s of
        Inl e \<Rightarrow> Inl e
      | Inr s' \<Rightarrow> tickLoop rnd cfg tk rest s')"

definition simulationTick :: "SimNode list \<Rightarrow> SimConfig \<Rightarrow> int \<Rightarrow> rnd \<Rightarrow> error + SimNode list" where
  "simulationTick nodes cfg tk rnd =
     (case tickLoop rnd cfg tk [0..<length nodes] (nodes, 0) of
        Inl e \<Rightarrow> Inl e
      | Inr (updated, k) \<Rightarrow> Inr updated)"

section \<open>applyFactCheck\<close>

fun immunize :: "rnd \<Rightarrow> nat list \<Rightarrow> SimNode list \<times> nat \<Rightarrow> error + SimNode list \<times> nat" where
  "immunize rnd [] s = Inr s"
| "immunize rnd (nId # rest) (updated, k) =
     (if nId < length updated then
        (if state (updated ! nId) = Healthy then
           (if rnd k < 0.5
            then immunize rnd rest (updated[nId := (updated ! nId)\<lparr>state := Aware\<rparr>], Suc k)
            else immunize rnd rest (updated, Suc k))
         else immunize rnd rest (updated, k))
      else Inl TypeError)"

definition applyFactCheck :: "SimNode list \<Rightarrow> nat \<Rightarrow> rnd \<Rightarrow> error + SimNode list" where
  "applyFactCheck nodes nodeId rnd =
     (if nodeId < length nodes then
        (let node = nodes ! nodeId;
             updated = (if state node = Infected
                        then nodes[nodeId := node\<lparr>state := Recovered\<rparr>] else nodes)
         in case immunize rnd (connections node) (updated, 0) of
              Inl e \<Rightarrow> Inl e
            | Inr (updated', k) \<Rightarrow> Inr updated')
      else Inl TypeError)"

section \<open>applyAwarenessCampaign\<close>

text \<open>
  \<open>healthyNodes\<close> holds references into \<open>updated\<close>; the model keeps their indices. The
  product \<open>healthyNodes.length * 0.2\<close> is taken over the reals.
\<close>

definition healthyNodes :: "SimNode list \<Rightarrow> nat list" where
  "healthyNodes nodes = filter (\<lambda>i. state (nodes ! i) = Healthy) [0..<length nodes]"

definition campaignCount :: "nat \<Rightarrow> int" where
  "campaignCount h = \<lceil>real h * 0.2\<rceil>"

definition makeAware :: "nat \<Rightarrow> SimNode list \<Rightarrow> SimNode list" where
  "makeAware i updated = updated[i := (updated ! i)\<lparr>state := Aware\<rparr>]"

definition applyAwarenessCampaign :: "SimNode list \<Rightarrow> (nat list \<Rightarrow> nat list) \<Rightarrow> SimNode list" where
  "applyAwarenessCampaign nodes shuffle =
     (let shuffled = shuffle (healthyNodes nodes);
          count = campaignCount (length (healthyNodes nodes))
      in fold makeAware (take (nat (min count (int (length shuffled)))) shuffled) nodes)"

section \<open>Notions used in the properties\<close>

subsection \<open>The state graph\<close>

fun legalEdge :: "NodeState \<Rightarrow> NodeState \<Rightarrow> bool" where
  "legalEdge Healthy Infected = True"
| "legalEdge Infected Recovered = True"
| "legalEdge Healthy Aware = True"
| "legalEdge _ _ = False"

definition stateStep :: "NodeState \<Rightarrow> NodeState \<Rightarrow> bool" where
  "stateStep s s' = (s' = s \<or> legalEdge s s')"

text \<open>
  The two assignments of simulationTick, as relations between a node before and after,
  and what a whole call may do to one node: nothing, one of the two assignments, or,
  when the recovery time is not positive, both in a row.
\<close>

definition infectStep :: "int \<Rightarrow> SimNode \<Rightarrow> SimNode \<Rightarrow> bool" where
  "infectStep tk a b = (state a = Healthy \<and> b = a\<lparr>state := Infected, infectedAt := tk\<rparr>)"

definition recoverStep :: "SimConfig \<Rightarrow> int \<Rightarrow> SimNode \<Rightarrow> SimNode \<Rightarrow> bool" where
  "recoverStep cfg tk a b =
     (state a = Infected \<and> tk - infectedAt a \<ge> recoveryTime cfg \<and> b = a\<lparr>state := Recovered\<rparr>)"

definition tickRel :: "SimConfig \<Rightarrow> int \<Rightarrow> SimNode \<Rightarrow> SimNode \<Rightarrow> bool" where
  "tickRel cfg tk a b =
     (b = a \<or> infectStep tk a b \<or> recoverStep cfg tk a b
      \<or> (state a = Healthy \<and> recoveryTime cfg \<le> 0
          \<and> b = a\<lparr>state := Recovered, infectedAt := tk\<rparr>))"

subsection \<open>Shape of the adjacency lists\<close>

definition symmetric :: "SimNode list \<Rightarrow> bool" where
  "symmetric nodes =
     (\<forall>i<length nodes. \<forall>j<length nodes.
        (j \<in> set (connections (nodes ! i))) = (i \<in> set (connections (nodes ! j))))"

text \<open>Neighbour ids are ids of the array, no node is its own neighbour, none is listed twice.\<close>

definition wellFormed :: "SimNode list \<Rightarrow> bool" where
  "wellFormed nodes =
     (\<forall>i<length nodes.
        distinct (connections (nodes ! i)) \<and> i \<notin> set (connections (nodes ! i))
        \<and> (\<forall>j\<in>set (connections (nodes ! i)). j < length nodes))"

subsection \<open>Nodes touched by the interventions\<close>

text \<open>The ids of a list that belong to healthy nodes, in the order of the list.\<close>

definition healthyOf :: "SimNode list \<Rightarrow> nat list \<Rightarrow> nat list" where
  "healthyOf nodes ids = filter (\<lambda>j. state (nodes ! j) = Healthy) ids"

text \<open>The prefix of the shuffled healthy nodes that applyAwarenessCampaign makes aware.\<close>

definition selected :: "SimNode list \<Rightarrow> (nat list \<Rightarrow> nat list) \<Rightarrow> nat list" where
  "selected nodes shuffle =
     take (nat (min (campaignCount (length (healthyNodes nodes)))
                    (int (length (shuffle (healthyNodes nodes))))))
          (shuffle (healthyNodes nodes))"

subsection \<open>Concrete inputs\<close>

text \<open>A random source whose every draw is 0, and nodes placed at (60, 60).\<close>

definition zeroDraws :: rnd where
  "zeroDraws k = 0"

definition testNode :: "nat \<Rightarrow> NodeState \<Rightarrow> int \<Rightarrow> nat list \<Rightarrow> SimNode" where
  "testNode i s t conns =
     \<lparr> id_node = i, x_coord = 60, y_coord = 60, vx_vel = 0, vy_vel = 0,
       state = s, infectedAt = t, connections = conns \<rparr>"

definition pairConfig :: SimConfig where
  "pairConfig = \<lparr> nodeCount = 2, connectionDensity = 3, spreadProbability = 1,
                  recoveryTime = 5, initialInfected = 1 \<rparr>"

definition instantConfig :: SimConfig where
  "instantConfig = \<lparr> nodeCount = 2, connectionDensity = 3, spreadProbability = 1,
                     recoveryTime = 0, initialInfected = 1 \<rparr>"

definition singleConfig :: SimConfig where
  "singleConfig = \<lparr> nodeCount = 1, connectionDensity = 3, spreadProbability = 1,
                    recoveryTime = 5, initialInfected = 1 \<rparr>"

definition overfullConfig :: SimConfig where
  "overfullConfig = \<lparr> nodeCount = 1, connectionDensity = 3, spreadProbability = 1,
                      recoveryTime = 5, initialInfected = 2 \<rparr>"

definition sparseConfig :: SimConfig where
  "sparseConfig = \<lparr> nodeCount = 3, connectionDensity = 1, spreadProbability = 1,
                    recoveryTime = 5, initialInfected = 0 \<rparr>"

text \<open>A random source whose every draw is 0.875.\<close>

definition highDraws :: rnd where
  "highDraws k = 7 / 8"

definition pairNodes :: "SimNode list" where
  "pairNodes = [testNode 0 Infected 0 [1], testNode 1 Healthy (- 1) [0]]"

definition tripleNodes :: "SimNode list" where
  "tripleNodes = [testNode 0 Infected 0 [1], testNode 1 Healthy (- 1) [0, 2],
                  testNode 2 Healthy (- 1) [1]]"

section \<open>Array lengths\<close>

lemma countSum_getStats: "countSum (getStats nodes tk) = length nodes"
proof (induction nodes)
  case Nil
  show ?case by (simp add: countSum_def getStats_def)
next
  case (Cons n ns)
  then show ?case
    by (cases "state n") (simp_all add: countSum_def getStats_def)
qed

lemma length_pushConn [simp]: "length (pushConn a b nodes) = length nodes"
  by (simp add: pushConn_def)

lemma length_addEdge [simp]: "length (addEdge i j nodes) = length nodes"
  by (simp add: addEdge_def)

lemma connectLoop_length:
  "length (fst (connectLoop rnd maxDist tc i ds s)) = length (fst s)"
  by (induction rnd maxDist tc i ds s rule: connectLoop.induct) simp_all

lemma edgeLoop_length:
  "length (fst (edgeLoop rnd cfg maxDist idxs s)) = length (fst s)"
proof (induction rnd cfg maxDist idxs s rule: edgeLoop.induct)
  case (1 rnd cfg maxDist s)
  show ?case by simp
next
  case (2 rnd cfg maxDist i rest nodes edges k)
  obtain nodes' edges' added k' where c:
    "connectLoop rnd maxDist (targetConns (connectionDensity cfg) (rnd k)) i
       (distances nodes i) (nodes, edges, 0, Suc k) = (nodes', edges', added, k')"
    by (metis prod_cases4)
  have "length nodes' = length nodes"
    using connectLoop_length [of rnd maxDist "targetConns (connectionDensity cfg) (rnd k)" i
        "distances nodes i" "(nodes, edges, 0, Suc k)"] c by simp
  with 2 c show ?case by simp
qed

lemma seedLoop_length:
  "seedLoop shuffled idxs nodes = Inr out \<Longrightarrow> length out = length nodes"
  by (induction shuffled idxs nodes rule: seedLoop.induct) (auto split: if_splits)

lemma length_placeNodes [simp]: "length (placeNodes rnd width height n) = n"
  by (simp add: placeNodes_def)

lemma generateNetwork_length:
  assumes "generateNetwork cfg width height rnd shuffle = Inr (nodes, edges)"
  shows "length nodes = nat (nodeCount cfg)"
proof -
  let ?n = "nat (nodeCount cfg)"
  let ?e = "edgeLoop rnd cfg (sqrt (width * width + height * height)) [0..<?n]
              (placeNodes rnd width height ?n, [], 2 * ?n)"
  obtain ns es k where e: "?e = (ns, es, k)" by (metis prod_cases3)
  have "length ns = ?n"
    using edgeLoop_length [of rnd cfg "sqrt (width * width + height * height)" "[0..<?n]"
        "(placeNodes rnd width height ?n, [], 2 * ?n)"] e by simp
  moreover have "seedLoop (shuffle [0..<?n]) [0..<nat (initialInfected cfg)] ns = Inr nodes"
    using assms e by (simp add: generateNetwork_def Let_def split: if_splits sum.splits)
  ultimately show ?thesis by (simp add: seedLoop_length)
qed

lemma spread_length:
  "spread rnd cfg tk ns s = Inr s' \<Longrightarrow> length (fst s') = length (fst s)"
  by (induction rnd cfg tk ns s rule: spread.induct) (auto split: if_splits)

lemma tickNode_length:
  "tickNode rnd cfg tk i s = Inr s' \<Longrightarrow> length (fst s') = length (fst s)"
  by (auto simp: tickNode_def split: prod.splits if_splits sum.splits dest: spread_length)

lemma tickLoop_length:
  "tickLoop rnd cfg tk idxs s = Inr s' \<Longrightarrow> length (fst s') = length (fst s)"
  by (induction idxs arbitrary: s) (auto split: sum.splits dest: tickNode_length)

lemma simulationTick_length:
  "simulationTick nodes cfg tk rnd = Inr out \<Longrightarrow> length out = length nodes"
  by (auto simp: simulationTick_def split: sum.splits dest: tickLoop_length)

lemma immunize_length:
  "immunize rnd ns s = Inr s' \<Longrightarrow> length (fst s') = length (fst s)"
  by (induction rnd ns s rule: immunize.induct) (auto split: if_splits)

lemma applyFactCheck_length:
  "applyFactCheck nodes nodeId rnd = Inr out \<Longrightarrow> length out = length nodes"
  by (auto simp: applyFactCheck_def Let_def split: sum.splits if_splits dest: immunize_length)

lemma length_makeAware [simp]: "length (makeAware i updated) = length updated"
  by (simp add: makeAware_def)

lemma length_fold_makeAware [simp]: "length (fold makeAware idxs updated) = length updated"
  by (induction idxs arbitrary: updated) simp_all

lemma applyAwarenessCampaign_length:
  "length (applyAwarenessCampaign nodes shuffle) = length nodes"
  by (simp add: applyAwarenessCampaign_def Let_def)

section \<open>One tick, node by node\<close>

lemma spread_nodes:
  "spread rnd cfg tk ns s = Inr s' \<Longrightarrow> m < length (fst s) \<Longrightarrow>
     fst s' ! m = fst s ! m \<or> infectStep tk (fst s ! m) (fst s' ! m)"
proof (induction rnd cfg tk ns s rule: spread.induct)
  case (1 rnd cfg tk s)
  then show ?case by simp
next
  case (2 rnd cfg tk neighborId rest updated k)
  show ?case
  proof (cases "neighborId < length updated \<and> state (updated ! neighborId) = Healthy
                 \<and> rnd k < spreadProbability cfg")
    case True
    let ?u = "updated[neighborId := (updated ! neighborId)\<lparr>state := Infected, infectedAt := tk\<rparr>]"
    from True 2 have r: "spread rnd cfg tk rest (?u, Suc k) = Inr s'" by simp
    from True 2(1) [OF _ _ _ r] 2(5)
    have ih: "fst s' ! m = ?u ! m \<or> infectStep tk (?u ! m) (fst s' ! m)" by simp
    show ?thesis
    proof (cases "m = neighborId")
      case True
      with ih \<open>neighborId < length updated \<and> _\<close> show ?thesis
        by (auto simp: infectStep_def)
    next
      case False
      with ih show ?thesis by simp
    qed
  next
    case False
    with 2 show ?thesis by (auto split: if_splits)
  qed
qed

lemma tickNode_nodes:
  assumes "tickNode rnd cfg tk i s = Inr s'" and "m < length (fst s)" and "i < length (fst s)"
  shows "fst s' ! m = fst s ! m \<or> infectStep tk (fst s ! m) (fst s' ! m)
         \<or> (m = i \<and> recoverStep cfg tk (fst s ! m) (fst s' ! m))"
proof -
  obtain updated k where s: "s = (updated, k)" by (cases s)
  show ?thesis
  proof (cases "state (updated ! i) = Infected")
    case False
    with assms s show ?thesis by (simp add: tickNode_def)
  next
    case True
    with assms s obtain u' k' where sp:
      "spread rnd cfg tk (connections (updated ! i)) (updated, k) = Inr (u', k')"
      by (auto simp: tickNode_def split: sum.splits)
    have len: "length u' = length updated" using spread_length [OF sp] by simp
    have same: "u' ! i = updated ! i"
      using spread_nodes [OF sp, of i] assms(3) s True by (auto simp: infectStep_def)
    have other: "u' ! m = updated ! m \<or> infectStep tk (updated ! m) (u' ! m)"
      using spread_nodes [OF sp, of m] assms(2) s by simp
    show ?thesis
    proof (cases "tk - infectedAt (u' ! i) \<ge> recoveryTime cfg")
      case False
      with assms s True sp have "s' = (u', k')" by (simp add: tickNode_def)
      with other s show ?thesis by auto
    next
      case rec: True
      with assms s True sp have s': "s' = (u'[i := (u' ! i)\<lparr>state := Recovered\<rparr>], k')"
        by (simp add: tickNode_def)
      show ?thesis
      proof (cases "m = i")
        case True
        with s' s same rec \<open>state (updated ! i) = Infected\<close> assms(3) len show ?thesis
          by (simp add: recoverStep_def)
      next
        case False
        with s' s other show ?thesis by auto
      qed
    qed
  qed
qed

lemma tickRel_refl: "tickRel cfg tk a a"
  by (simp add: tickRel_def)

lemma tickRel_step:
  assumes "b = a \<or> infectStep tk a b \<or> recoverStep cfg tk a b"
    and "tickRel cfg tk b c"
  shows "tickRel cfg tk a c"
  using assms unfolding tickRel_def infectStep_def recoverStep_def
  by auto

lemma tickLoop_nodes:
  "tickLoop rnd cfg tk idxs s = Inr s' \<Longrightarrow> \<forall>i\<in>set idxs. i < length (fst s) \<Longrightarrow>
     m < length (fst s) \<Longrightarrow> tickRel cfg tk (fst s ! m) (fst s' ! m)"
proof (induction idxs arbitrary: s)
  case Nil
  then show ?case by (simp add: tickRel_refl)
next
  case (Cons i rest)
  from Cons.prems(1) obtain s1 where t: "tickNode rnd cfg tk i s = Inr s1"
    and l: "tickLoop rnd cfg tk rest s1 = Inr s'"
    by (auto split: sum.splits)
  have len: "length (fst s1) = length (fst s)" by (rule tickNode_length [OF t])
  have one: "fst s1 ! m = fst s ! m \<or> infectStep tk (fst s ! m) (fst s1 ! m)
         \<or> recoverStep cfg tk (fst s ! m) (fst s1 ! m)"
    using tickNode_nodes [OF t Cons.prems(3)] Cons.prems(2) by auto
  have rest: "tickRel cfg tk (fst s1 ! m) (fst s' ! m)"
    using Cons.IH [OF l] Cons.prems(2,3) len by simp
  show ?case by (rule tickRel_step [OF one rest])
qed

section \<open>Adjacency built by generateNetwork\<close>

lemma connections_pushConn:
  "m < length nodes \<Longrightarrow>
     connections (pushConn a b nodes ! m) =
       (if m = a then connections (nodes ! m) @ [b] else connections (nodes ! m))"
  by (simp add: pushConn_def)





lemma connectLoop_keeps_degree:
  "m < length (fst s) \<Longrightarrow> connections (fst s ! m) \<noteq> [] \<Longrightarrow>
     connections (fst (connectLoop rnd maxDist tc i ds s) ! m) \<noteq> []"
proof (induction rnd maxDist tc i ds s rule: connectLoop.induct)
  case (1 rnd maxDist tc i s)
  then show ?case by simp
next
  case (2 rnd maxDist tc i j dst ds nodes edges added k)
  have "connections (addEdge i j nodes ! m) \<noteq> []"
    using 2(4,5) by (simp add: addEdge_def connections_pushConn)
  with 2 show ?case by simp
qed

lemma connectLoop_first:
  assumes "i < length nodes" and "1 \<le> tc" and "ds \<noteq> []"
  shows "connections (fst (connectLoop rnd maxDist tc i ds (nodes, edges, 0, k)) ! i) \<noteq> []"
proof -
  from assms(3) obtain j dst ds' where ds: "ds = (j, dst) # ds'"
    by (cases ds) auto
  show ?thesis
  proof (cases "j \<in> set (connections (nodes ! i))")
    case True
    then have "connections (nodes ! i) \<noteq> []" by auto
    then show ?thesis
      using connectLoop_keeps_degree [of i "(nodes, edges, 0, k)"] assms(1) by simp
  next
    case False
    have "connections (addEdge i j nodes ! i) \<noteq> []"
      using assms(1) by (simp add: addEdge_def connections_pushConn)
    then have "connections (fst (connectLoop rnd maxDist tc i ds'
        (addEdge i j nodes, edges @ [\<lparr>source = i, target = j\<rparr>], 1, Suc k)) ! i) \<noteq> []"
      using connectLoop_keeps_degree
        [of i "(addEdge i j nodes, edges @ [\<lparr>source = i, target = j\<rparr>], 1, Suc k)"] assms(1)
      by simp
    with False assms(2) ds show ?thesis by simp
  qed
qed

lemma targetConns_ge_1: "1 \<le> targetConns density r"
  by (simp add: targetConns_def)

lemma fst_set_distances:
  "fst ` set (distances nodes i) = {0..<length nodes} - {i}"
  by (auto simp: distances_def image_iff)


lemma distances_nonempty:
  assumes "2 \<le> length nodes"
  shows "distances nodes i \<noteq> []"
proof -
  have "{0..<length nodes} - {i} \<noteq> {}"
  proof (cases "i = 0")
    case True
    with assms have "1 \<in> {0..<length nodes} - {i}" by simp
    then show ?thesis by blast
  next
    case False
    with assms have "0 \<in> {0..<length nodes} - {i}" by auto
    then show ?thesis by blast
  qed
  then show ?thesis using fst_set_distances [of nodes i] by auto
qed

lemma connectLoop_result_length:
  assumes "connectLoop rnd maxDist tc i ds (nodes, edges, added, k) = (nodes', edges', added', k')"
  shows "length nodes' = length nodes"
  using connectLoop_length [of rnd maxDist tc i ds "(nodes, edges, added, k)"] assms by simp

lemma edgeLoop_Cons:
  obtains nodes' edges' added k' where
    "connectLoop rnd maxDist (targetConns (connectionDensity cfg) (rnd (snd (snd s)))) i
       (distances (fst s) i) (fst s, fst (snd s), 0, Suc (snd (snd s))) = (nodes', edges', added, k')"
    and "edgeLoop rnd cfg maxDist (i # rest) s = edgeLoop rnd cfg maxDist rest (nodes', edges', k')"
    and "length nodes' = length (fst s)"
proof -
  obtain nodes edges k where s: "s = (nodes, edges, k)" by (metis prod_cases3)
  obtain nodes' edges' added k' where c:
    "connectLoop rnd maxDist (targetConns (connectionDensity cfg) (rnd k)) i
       (distances nodes i) (nodes, edges, 0, Suc k) = (nodes', edges', added, k')"
    by (metis prod_cases4)
  show thesis
  proof (rule that [of nodes' edges' added k'])
    show "connectLoop rnd maxDist (targetConns (connectionDensity cfg) (rnd (snd (snd s)))) i
       (distances (fst s) i) (fst s, fst (snd s), 0, Suc (snd (snd s))) = (nodes', edges', added, k')"
      using c s by simp
    show "edgeLoop rnd cfg maxDist (i # rest) s = edgeLoop rnd cfg maxDist rest (nodes', edges', k')"
      using c s by simp
    show "length nodes' = length (fst s)"
      using connectLoop_result_length [OF c] s by simp
  qed
qed


lemma edgeLoop_keeps_degree:
  "m < length (fst s) \<Longrightarrow> connections (fst s ! m) \<noteq> [] \<Longrightarrow>
     connections (fst (edgeLoop rnd cfg maxDist idxs s) ! m) \<noteq> []"
proof (induction idxs arbitrary: s)
  case Nil
  then show ?case by simp
next
  case (Cons i rest)
  obtain nodes' edges' added k' where c:
    "connectLoop rnd maxDist (targetConns (connectionDensity cfg) (rnd (snd (snd s)))) i
       (distances (fst s) i) (fst s, fst (snd s), 0, Suc (snd (snd s))) = (nodes', edges', added, k')"
    and e: "edgeLoop rnd cfg maxDist (i # rest) s = edgeLoop rnd cfg maxDist rest (nodes', edges', k')"
    and len: "length nodes' = length (fst s)"
    by (rule edgeLoop_Cons)
  have "connections (fst (connectLoop rnd maxDist
          (targetConns (connectionDensity cfg) (rnd (snd (snd s)))) i
          (distances (fst s) i) (fst s, fst (snd s), 0, Suc (snd (snd s)))) ! m) \<noteq> []"
    using Cons.prems by (intro connectLoop_keeps_degree) simp_all
  with c have "connections (nodes' ! m) \<noteq> []" by simp
  then show ?case
    using Cons.IH [of "(nodes', edges', k')"] Cons.prems(1) len e by simp
qed

lemma edgeLoop_degree:
  "2 \<le> length (fst s) \<Longrightarrow> \<forall>i\<in>set idxs. i < length (fst s) \<Longrightarrow> m \<in> set idxs \<Longrightarrow>
     connections (fst (edgeLoop rnd cfg maxDist idxs s) ! m) \<noteq> []"
proof (induction idxs arbitrary: s)
  case Nil
  then show ?case by simp
next
  case (Cons i rest)
  obtain nodes' edges' added k' where c:
    "connectLoop rnd maxDist (targetConns (connectionDensity cfg) (rnd (snd (snd s)))) i
       (distances (fst s) i) (fst s, fst (snd s), 0, Suc (snd (snd s))) = (nodes', edges', added, k')"
    and e: "edgeLoop rnd cfg maxDist (i # rest) s = edgeLoop rnd cfg maxDist rest (nodes', edges', k')"
    and len: "length nodes' = length (fst s)"
    by (rule edgeLoop_Cons)
  show ?case
  proof (cases "m \<in> set rest")
    case True
    then show ?thesis
      using Cons.IH [of "(nodes', edges', k')"] Cons.prems(1,2) len e by simp
  next
    case False
    with Cons.prems(3) have mi: "m = i" by simp
    have "connections (fst (connectLoop rnd maxDist
          (targetConns (connectionDensity cfg) (rnd (snd (snd s)))) i
          (distances (fst s) i) (fst s, fst (snd s), 0, Suc (snd (snd s)))) ! i) \<noteq> []"
      using Cons.prems(1,2)
      by (intro connectLoop_first) (simp_all add: targetConns_ge_1 distances_nonempty)
    with c mi have "connections (nodes' ! m) \<noteq> []" by simp
    moreover have "m < length nodes'" using mi Cons.prems(2) len by simp
    ultimately have "connections (fst (edgeLoop rnd cfg maxDist rest (nodes', edges', k')) ! m) \<noteq> []"
      using edgeLoop_keeps_degree [of m "(nodes', edges', k')"] by simp
    with e show ?thesis by simp
  qed
qed

lemma seedLoop_connections:
  "seedLoop shuffled idxs nodes = Inr out \<Longrightarrow> map connections out = map connections nodes"
proof (induction shuffled idxs nodes rule: seedLoop.induct)
  case (1 shuffled nodes)
  then show ?case by simp
next
  case (2 shuffled i rest nodes)
  then show ?case
    by (auto split: if_splits simp: map_update list_update_same_conv)
qed

lemma nth_connections:
  "map connections a = map connections b \<Longrightarrow> i < length b \<Longrightarrow>
     connections (a ! i) = connections (b ! i)"
  by (metis length_map nth_map)




lemma generateNetwork_parts:
  assumes "generateNetwork cfg width height rnd shuffle = Inr (nodes, edges)"
  obtains ns k where
    "edgeLoop rnd cfg (sqrt (width * width + height * height)) [0..<nat (nodeCount cfg)]
       (placeNodes rnd width height (nat (nodeCount cfg)), [], 2 * nat (nodeCount cfg))
     = (ns, edges, k)"
    and "seedLoop (shuffle [0..<nat (nodeCount cfg)]) [0..<nat (initialInfected cfg)] ns = Inr nodes"
    and "0 \<le> nodeCount cfg"
  using assms
  by (auto simp: generateNetwork_def Let_def split: prod.splits if_splits sum.splits)


lemma generateNetwork_degree:
  assumes "generateNetwork cfg width height rnd shuffle = Inr (nodes, edges)"
    and "2 \<le> nodeCount cfg" and "m < length nodes"
  shows "connections (nodes ! m) \<noteq> []"
proof -
  from assms(1) obtain ns k where
    e: "edgeLoop rnd cfg (sqrt (width * width + height * height)) [0..<nat (nodeCount cfg)]
       (placeNodes rnd width height (nat (nodeCount cfg)), [], 2 * nat (nodeCount cfg))
     = (ns, edges, k)"
    and s: "seedLoop (shuffle [0..<nat (nodeCount cfg)]) [0..<nat (initialInfected cfg)] ns = Inr nodes"
    by (rule generateNetwork_parts)
  have len: "length nodes = nat (nodeCount cfg)"
    by (rule generateNetwork_length [OF assms(1)])
  have "connections (fst (edgeLoop rnd cfg (sqrt (width * width + height * height))
       [0..<nat (nodeCount cfg)]
       (placeNodes rnd width height (nat (nodeCount cfg)), [], 2 * nat (nodeCount cfg))) ! m) \<noteq> []"
    using assms(2,3) len by (intro edgeLoop_degree) simp_all
  with e have "connections (ns ! m) \<noteq> []" by simp
  moreover have "length ns = length nodes"
    using seedLoop_length [OF s] by simp
  ultimately show ?thesis
    using nth_connections [OF seedLoop_connections [OF s], of m] assms(3) by simp
qed

section \<open>The campaign count as an integer\<close>

lemma campaignCount_div: "campaignCount h = (int h + 4) div 5"
proof -
  have "real h * 0.2 = real_of_int (int h) / real_of_int 5" by simp
  then have "campaignCount h = - (- int h div 5)"
    unfolding campaignCount_def by (simp only: ceiling_divide_eq_div)
  then show ?thesis by presburger
qed

lemma campaignCount_le: "campaignCount h \<le> int h"
  unfolding campaignCount_div by presburger

lemma campaignCount_0: "campaignCount 0 = 0"
  by (simp add: campaignCount_div)

section \<open>Rounding to double precision\<close>

lemma roundEven_ge: "of_int k \<le> y \<Longrightarrow> k \<le> roundEven y"
proof -
  assume "of_int k \<le> y"
  then have "k \<le> \<lfloor>y\<rfloor>" by (simp add: le_floor_iff)
  then show ?thesis unfolding roundEven_def by auto
qed

lemma roundEven_le: "y \<le> of_int k \<Longrightarrow> roundEven y \<le> k"
proof (cases "y = of_int k")
  case True
  then show ?thesis by (simp add: roundEven_def)
next
  case False
  assume "y \<le> of_int k"
  with False have "y < of_int k" by simp
  then have "\<lfloor>y\<rfloor> < k" by (simp add: floor_less_iff)
  then show ?thesis unfolding roundEven_def by auto
qed

lemma ulp_pos: "0 < ulp x"
  by (simp add: ulp_def)

lemma grid:
  assumes "x \<noteq> 0" and "\<bar>x\<bar> < 2 ^ (53 - j)" and "j \<le> 53"
  shows "\<exists>k::int. of_int n / 2 ^ j = of_int k * ulp x"
proof -
  let ?e = "\<lfloor>log 2 \<bar>x\<bar>\<rfloor>"
  have "log 2 \<bar>x\<bar> < real (53 - j)"
    using assms(1,2) by (simp add: log_less_iff powr_realpow)
  then have "?e < int (53 - j)"
    by (simp add: floor_less_iff)
  then have e: "?e \<le> 52 - int j" using assms(3) by linarith
  define d where "d = nat (52 - int j - ?e)"
  have d: "int d = 52 - int j - ?e" using e by (simp add: d_def)
  have "real_of_int (?e - 52) = - real (j + d)"
    using d by simp
  then have "ulp x = 2 powr (- real (j + d))"
    unfolding ulp_def by (simp only:)
  also have "\<dots> = 1 / 2 ^ (j + d)"
  proof -
    have "(2::real) powr real (j + d) = 2 ^ (j + d)"
      by (rule powr_realpow) simp
    then show ?thesis by (simp only: powr_minus_divide)
  qed
  finally have u: "ulp x = 1 / 2 ^ (j + d)" .
  have "of_int n / 2 ^ j = of_int (n * 2 ^ d) * ulp x"
    unfolding u by (simp add: power_add)
  then show ?thesis by blast
qed

lemma dbl_le:
  assumes "x \<le> of_int n / 2 ^ j" and "\<bar>x\<bar> < 2 ^ (53 - j)" and "j \<le> 53"
  shows "dbl x \<le> of_int n / 2 ^ j"
proof (cases "x = 0")
  case True
  with assms(1) show ?thesis by (simp add: dbl_def)
next
  case False
  from grid [OF False assms(2,3), of n] obtain k :: int where
    k: "of_int n / 2 ^ j = of_int k * ulp x" by blast
  have "x / ulp x \<le> of_int k"
    using assms(1) k ulp_pos [of x] by (simp add: pos_divide_le_eq)
  then have "roundEven (x / ulp x) \<le> k" by (rule roundEven_le)
  then have "of_int (roundEven (x / ulp x)) * ulp x \<le> of_int k * ulp x"
    using ulp_pos [of x] by simp
  with False k show ?thesis by (simp add: dbl_def)
qed

lemma dbl_ge:
  assumes "of_int n / 2 ^ j \<le> x" and "\<bar>x\<bar> < 2 ^ (53 - j)" and "j \<le> 53"
  shows "of_int n / 2 ^ j \<le> dbl x"
proof (cases "x = 0")
  case True
  with assms(1) show ?thesis by (simp add: dbl_def)
next
  case False
  from grid [OF False assms(2,3), of n] obtain k :: int where
    k: "of_int n / 2 ^ j = of_int k * ulp x" by blast
  have "of_int k \<le> x / ulp x"
    using assms(1) k ulp_pos [of x] by (simp add: pos_le_divide_eq)
  then have "k \<le> roundEven (x / ulp x)" by (rule roundEven_ge)
  then have "of_int k * ulp x \<le> of_int (roundEven (x / ulp x)) * ulp x"
    using ulp_pos [of x] by simp
  with False k show ?thesis by (simp add: dbl_def)
qed

lemma dbl_exact:
  assumes "x = of_int n / 2 ^ j" and "\<bar>x\<bar> < 2 ^ (53 - j)" and "j \<le> 53"
  shows "dbl x = x"
  using dbl_le [of x n j] dbl_ge [of n j x] assms by simp

lemma dbl_dyadic:
  assumes "x = of_int a / 2 ^ j" and "j \<le> 20" and "\<bar>a\<bar> < 2 ^ 32"
  shows "dbl x = x"
proof (rule dbl_exact [OF assms(1)])
  show "j \<le> 53" using assms(2) by simp
  have "\<bar>x\<bar> \<le> \<bar>of_int a\<bar>"
    unfolding assms(1) by (simp add: abs_divide divide_le_eq_1_pos le_divide_eq_1_pos
        pos_divide_le_eq mult_le_cancel_left1)
  also have "\<dots> < 2 ^ 32"
    using assms(3) by (metis of_int_abs of_int_less_numeral_power_cancel_iff)
  also have "\<dots> \<le> (2::real) ^ (53 - j)"
    using assms(2) by (intro power_increasing) simp_all
  finally show "\<bar>x\<bar> < 2 ^ (53 - j)" .
qed

lemma targetConns_dyadic:
  assumes "r - 0.5 = of_int a / 2 ^ j" and "density + of_int (2 * a) / 2 ^ j = of_int b / 2 ^ j"
    and "j \<le> 20" and "\<bar>2 * a\<bar> < 2 ^ 32" and "\<bar>b\<bar> < 2 ^ 32"
  shows "targetConns density r = max 1 \<lfloor>of_int b / 2 ^ j :: real\<rfloor>"
proof -
  have "\<bar>a\<bar> < 2 ^ 32" using assms(4) by simp
  then have 1: "dbl (r - 0.5) = of_int a / 2 ^ j"
    using dbl_dyadic [OF assms(1,3)] assms(1) by simp
  have "of_int a / 2 ^ j * 2 = (of_int (2 * a) / 2 ^ j :: real)" by simp
  then have 2: "dbl (of_int a / 2 ^ j * 2) = of_int (2 * a) / 2 ^ j"
    using dbl_dyadic [of "of_int a / 2 ^ j * 2" "2 * a" j] assms(3,4) by simp
  have 3: "dbl (of_int b / 2 ^ j) = of_int b / 2 ^ j"
    using dbl_dyadic [of "of_int b / 2 ^ j" b j] assms(3,5) by simp
  show ?thesis
    unfolding targetConns_def 1 2 assms(2) 3 ..
qed

section \<open>Runs on concrete inputs\<close>

lemma placeNodes_pair:
  "placeNodes zeroDraws 120 120 2 = [testNode 0 Healthy (- 1) [], testNode 1 Healthy (- 1) []]"
  by (simp add: placeNodes_def mkNode_def testNode_def zeroDraws_def upt_rec)

lemma distances_pair:
  "distances [testNode 0 s0 t0 c0, testNode (Suc 0) s1 t1 c1] 0 = [(Suc 0, 0)]"
  "distances [testNode 0 s0 t0 c0, testNode (Suc 0) s1 t1 c1] (Suc 0) = [(0, 0)]"
  by (simp_all add: distances_def hypot_def testNode_def upt_rec)

lemma edgeLoop_pair:
  "edgeLoop zeroDraws pairConfig maxDist [0..<2]
     ([testNode 0 Healthy (- 1) [], testNode 1 Healthy (- 1) []], [], 4)
   = ([testNode 0 Healthy (- 1) [1], testNode 1 Healthy (- 1) [0]],
      [\<lparr>source = 0, target = 1\<rparr>], 7)"
proof -
  have tc: "targetConns (connectionDensity pairConfig) (zeroDraws k) = 2" for k
    using targetConns_dyadic [of "zeroDraws k" "- 1" 1 "connectionDensity pairConfig" 4]
    by (simp add: pairConfig_def zeroDraws_def)
  have a: "addEdge 0 (Suc 0) [testNode 0 Healthy (- 1) [], testNode (Suc 0) Healthy (- 1) []]
             = [testNode 0 Healthy (- 1) [Suc 0], testNode (Suc 0) Healthy (- 1) [0]]"
    by (simp add: addEdge_def pushConn_def testNode_def)
  have c: "connections (testNode i s t conns) = conns" for i s t conns
    by (simp add: testNode_def)
  have u: "[0..<2] = [0, 1]" by (simp add: upt_rec)
  show ?thesis
    unfolding u by (simp add: tc distances_pair a c)
qed

lemma generateNetwork_pair:
  "generateNetwork pairConfig 120 120 zeroDraws id = Inr (pairNodes, [\<lparr>source = 0, target = 1\<rparr>])"
proof -
  have n: "nat (nodeCount pairConfig) = 2" "nat (initialInfected pairConfig) = 1"
    "\<not> nodeCount pairConfig < 0"
    by (simp_all add: pairConfig_def)
  have s: "seedLoop [0, 1] [0] [testNode 0 Healthy (- 1) [1], testNode 1 Healthy (- 1) [0]]
             = Inr pairNodes"
    by (simp add: pairNodes_def testNode_def)
  have u: "[0..<2] = [0, 1]" "[0..<1] = [0]" by (simp_all add: upt_rec)
  show ?thesis
    unfolding generateNetwork_def Let_def n(1,2) placeNodes_pair
    using edgeLoop_pair [of "sqrt (120 * 120 + 120 * 120)"] s n(3)
    by (simp add: u)
qed

lemma simulationTick_pair:
  "simulationTick pairNodes pairConfig 1 zeroDraws
     = Inr [testNode 0 Infected 0 [1], testNode 1 Infected 1 [0]]"
  by (simp add: simulationTick_def tickNode_def pairNodes_def testNode_def pairConfig_def
      zeroDraws_def upt_rec)

lemma applyFactCheck_pair:
  "applyFactCheck pairNodes 0 zeroDraws
     = Inr [testNode 0 Recovered 0 [1], testNode 1 Aware (- 1) [0]]"
  by (simp add: applyFactCheck_def pairNodes_def testNode_def zeroDraws_def)

lemma healthyNodes_pair: "healthyNodes pairNodes = [1]"
  by (simp add: healthyNodes_def pairNodes_def testNode_def upt_rec)

lemma applyAwarenessCampaign_pair:
  "applyAwarenessCampaign pairNodes id
     = [testNode 0 Infected 0 [1], testNode 1 Aware (- 1) [0]]"
  unfolding applyAwarenessCampaign_def healthyNodes_pair Let_def
  by (simp add: campaignCount_div makeAware_def pairNodes_def testNode_def)

section \<open>Count conservation\<close>

text \<open>
  C1. The four counts of getStats add up to the length of the node array, and
  generateNetwork, simulationTick, applyFactCheck and applyAwarenessCampaign keep the
  length of the array (generateNetwork returns nodeCount nodes), so that the sum is
  nodeCount after generation, after every tick and after every intervention.
\<close>

theorem count_conservation:
  "countSum (getStats nodes tk) = length nodes
   \<and> (generateNetwork cfg width height rnd shuffle = Inr (nodes, edges)
        \<longrightarrow> countSum (getStats nodes tk) = nat (nodeCount cfg))
   \<and> (simulationTick nodes cfg' tk' rnd' = Inr ticked
        \<longrightarrow> countSum (getStats ticked tk) = countSum (getStats nodes tk))
   \<and> (applyFactCheck nodes nodeId rnd'' = Inr checked
        \<longrightarrow> countSum (getStats checked tk) = countSum (getStats nodes tk))
   \<and> countSum (getStats (applyAwarenessCampaign nodes shuffle') tk)
        = countSum (getStats nodes tk)"
  by (simp add: countSum_getStats generateNetwork_length simulationTick_length
      applyFactCheck_length applyAwarenessCampaign_length)

theorem count_conservation_witness:
  "generateNetwork pairConfig 120 120 zeroDraws id = Inr (pairNodes, [\<lparr>source = 0, target = 1\<rparr>])
   \<and> simulationTick pairNodes pairConfig 1 zeroDraws
        = Inr [testNode 0 Infected 0 [1], testNode 1 Infected 1 [0]]
   \<and> applyFactCheck pairNodes 0 zeroDraws
        = Inr [testNode 0 Recovered 0 [1], testNode 1 Aware (- 1) [0]]
   \<and> countSum (getStats pairNodes 0) = 2
   \<and> countSum (getStats [testNode 0 Infected 0 [1], testNode 1 Infected 1 [0]] 0) = 2
   \<and> countSum (getStats [testNode 0 Recovered 0 [1], testNode 1 Aware (- 1) [0]] 0) = 2
   \<and> countSum (getStats (applyAwarenessCampaign pairNodes id) 0) = 2"
  using count_conservation [of pairNodes 0 pairConfig 120 120 zeroDraws id
      "[\<lparr>source = 0, target = 1\<rparr>]" pairConfig 1 zeroDraws
      "[testNode 0 Infected 0 [1], testNode 1 Infected 1 [0]]" 0 zeroDraws
      "[testNode 0 Recovered 0 [1], testNode 1 Aware (- 1) [0]]" id]
    generateNetwork_pair simulationTick_pair applyFactCheck_pair
  by (simp add: pairNodes_def)

section \<open>What the interventions do to a single node\<close>

lemma immunize_nodes:
  "immunize rnd ns s = Inr s' \<Longrightarrow> m < length (fst s) \<Longrightarrow>
     fst s' ! m = fst s ! m
     \<or> (state (fst s ! m) = Healthy \<and> fst s' ! m = (fst s ! m)\<lparr>state := Aware\<rparr>)"
proof (induction rnd ns s rule: immunize.induct)
  case (1 rnd s)
  then show ?case by simp
next
  case (2 rnd nId rest updated k)
  show ?case
  proof (cases "nId < length updated \<and> state (updated ! nId) = Healthy \<and> rnd k < 0.5")
    case True
    let ?u = "updated[nId := (updated ! nId)\<lparr>state := Aware\<rparr>]"
    from True 2 have r: "immunize rnd rest (?u, Suc k) = Inr s'" by simp
    from True 2(1) [OF _ _ _ r] 2(5)
    have ih: "fst s' ! m = ?u ! m
       \<or> (state (?u ! m) = Healthy \<and> fst s' ! m = (?u ! m)\<lparr>state := Aware\<rparr>)" by simp
    show ?thesis
    proof (cases "m = nId")
      case True
      with ih \<open>nId < length updated \<and> _\<close> show ?thesis by auto
    next
      case False
      with ih show ?thesis by simp
    qed
  next
    case False
    with 2 show ?thesis by (auto split: if_splits)
  qed
qed

lemma applyFactCheck_nodes:
  assumes "applyFactCheck nodes nodeId rnd = Inr checked" and "m < length nodes"
  shows "checked ! m = nodes ! m
     \<or> (m = nodeId \<and> state (nodes ! m) = Infected \<and> checked ! m = (nodes ! m)\<lparr>state := Recovered\<rparr>)
     \<or> (state (nodes ! m) = Healthy \<and> checked ! m = (nodes ! m)\<lparr>state := Aware\<rparr>)"
proof -
  let ?u = "if state (nodes ! nodeId) = Infected
            then nodes[nodeId := (nodes ! nodeId)\<lparr>state := Recovered\<rparr>] else nodes"
  from assms(1) have inr: "nodeId < length nodes"
    by (simp add: applyFactCheck_def split: if_splits)
  with assms(1) obtain k where im:
    "immunize rnd (connections (nodes ! nodeId)) (?u, 0) = Inr (checked, k)"
    by (auto simp: applyFactCheck_def Let_def split: sum.splits if_splits)
  have "checked ! m = ?u ! m
     \<or> (state (?u ! m) = Healthy \<and> checked ! m = (?u ! m)\<lparr>state := Aware\<rparr>)"
    using immunize_nodes [OF im, of m] assms(2) by (simp split: if_splits)
  then show ?thesis
    using inr assms(2) by (cases "m = nodeId") (auto split: if_splits)
qed

lemma nth_makeAware:
  "m < length updated \<Longrightarrow>
     makeAware i updated ! m = (if m = i then (updated ! m)\<lparr>state := Aware\<rparr> else updated ! m)"
  by (simp add: makeAware_def)

lemma nth_fold_makeAware:
  "m < length updated \<Longrightarrow>
     fold makeAware idxs updated ! m
       = (if m \<in> set idxs then (updated ! m)\<lparr>state := Aware\<rparr> else updated ! m)"
proof (induction idxs arbitrary: updated)
  case Nil
  then show ?case by simp
next
  case (Cons i idxs)
  have "fold makeAware (i # idxs) updated ! m
          = (if m \<in> set idxs then (makeAware i updated ! m)\<lparr>state := Aware\<rparr>
             else makeAware i updated ! m)"
    using Cons.IH [of "makeAware i updated"] Cons.prems by simp
  then show ?case using Cons.prems by (simp add: nth_makeAware)
qed

lemma healthyNodes_set:
  "set (healthyNodes nodes) = {i. i < length nodes \<and> state (nodes ! i) = Healthy}"
  by (auto simp: healthyNodes_def)

lemma applyAwarenessCampaign_nth:
  "m < length nodes \<Longrightarrow>
     applyAwarenessCampaign nodes shuffle ! m
       = (if m \<in> set (selected nodes shuffle) then (nodes ! m)\<lparr>state := Aware\<rparr> else nodes ! m)"
  by (simp add: applyAwarenessCampaign_def selected_def Let_def nth_fold_makeAware)

lemma selected_healthy:
  assumes "mset (shuffle (healthyNodes nodes)) = mset (healthyNodes nodes)"
    and "m \<in> set (selected nodes shuffle)"
  shows "m < length nodes \<and> state (nodes ! m) = Healthy"
proof -
  have "m \<in> set (shuffle (healthyNodes nodes))"
    using assms(2) unfolding selected_def by (rule in_set_takeD)
  then have "m \<in> set (healthyNodes nodes)"
    using mset_eq_setD [OF assms(1)] by simp
  then show ?thesis by (simp add: healthyNodes_set)
qed

section \<open>Legal transitions\<close>

lemma stateStep_infectStep: "infectStep tk a b \<Longrightarrow> stateStep (state a) (state b)"
  by (simp add: infectStep_def stateStep_def)

lemma stateStep_recoverStep: "recoverStep cfg tk a b \<Longrightarrow> stateStep (state a) (state b)"
  by (simp add: recoverStep_def stateStep_def)

lemma tickNode_stateStep:
  assumes "tickNode rnd cfg tk i (updated, k) = Inr (updated', k')"
    and "i < length updated" and "m < length updated"
  shows "stateStep (state (updated ! m)) (state (updated' ! m))"
  using tickNode_nodes [OF assms(1), of m] assms(2,3)
  by (auto simp: stateStep_def dest: stateStep_infectStep stateStep_recoverStep)

lemma simulationTick_nodes:
  assumes "simulationTick nodes cfg tk rnd = Inr ticked" and "m < length nodes"
  shows "tickRel cfg tk (nodes ! m) (ticked ! m)"
proof -
  from assms(1) obtain k where
    t: "tickLoop rnd cfg tk [0..<length nodes] (nodes, 0) = Inr (ticked, k)"
    by (auto simp: simulationTick_def split: sum.splits)
  show ?thesis
    using tickLoop_nodes [OF t, of m] assms(2) by simp
qed

lemma tickRel_state:
  assumes "tickRel cfg tk a b"
  shows "stateStep (state a) (state b)
         \<or> (state a = Healthy \<and> state b = Recovered \<and> recoveryTime cfg \<le> 0)"
  using assms unfolding tickRel_def
  by (auto simp: stateStep_def infectStep_def recoverStep_def)

lemma applyFactCheck_stateStep:
  assumes "applyFactCheck nodes nodeId rnd = Inr checked" and "m < length nodes"
  shows "stateStep (state (nodes ! m)) (state (checked ! m))"
  using applyFactCheck_nodes [OF assms] by (auto simp: stateStep_def)

lemma applyAwarenessCampaign_stateStep:
  assumes "mset (shuffle (healthyNodes nodes)) = mset (healthyNodes nodes)"
    and "m < length nodes"
  shows "stateStep (state (nodes ! m)) (state (applyAwarenessCampaign nodes shuffle ! m))"
  using selected_healthy [of shuffle nodes m] assms
  by (simp add: applyAwarenessCampaign_nth stateStep_def)

lemma stateStep_terminal:
  "stateStep s s' \<Longrightarrow> s = Recovered \<or> s = Aware \<Longrightarrow> s' = s"
  by (auto simp: stateStep_def)

text \<open>
  C2. Over one call of a core operation every node keeps its state or moves along one of
  the edges healthy \<rightarrow> infected, infected \<rightarrow> recovered and healthy \<rightarrow> aware: for
  applyFactCheck and applyAwarenessCampaign (its random sort returning a permutation of
  the healthy nodes) always, for simulationTick when the recovery time is positive.
  Whatever the recovery time, a node that is not healthy before simulationTick (so a
  recovered, an aware or an infected node) keeps its state or moves along one edge, and
  one run of the loop body of simulationTick (tickNode) moves every node along at most
  one edge.
\<close>

theorem state_graph:
  "(tickNode rnd cfg tk i (updated, k) = Inr (updated', k') \<and> i < length updated
      \<and> m < length updated
      \<longrightarrow> stateStep (state (updated ! m)) (state (updated' ! m)))
   \<and> (simulationTick nodes cfg tk rnd = Inr ticked \<and> m < length nodes
      \<and> 0 < recoveryTime cfg
      \<longrightarrow> stateStep (state (nodes ! m)) (state (ticked ! m)))
   \<and> (simulationTick nodes cfg tk rnd = Inr ticked \<and> m < length nodes
      \<and> state (nodes ! m) \<noteq> Healthy
      \<longrightarrow> stateStep (state (nodes ! m)) (state (ticked ! m)))
   \<and> (applyFactCheck nodes nodeId rnd' = Inr checked \<and> m < length nodes
      \<longrightarrow> stateStep (state (nodes ! m)) (state (checked ! m)))
   \<and> (mset (shuffle (healthyNodes nodes)) = mset (healthyNodes nodes) \<and> m < length nodes
      \<longrightarrow> stateStep (state (nodes ! m)) (state (applyAwarenessCampaign nodes shuffle ! m)))"
proof (intro conjI impI)
  assume "tickNode rnd cfg tk i (updated, k) = Inr (updated', k') \<and> i < length updated
      \<and> m < length updated"
  then show "stateStep (state (updated ! m)) (state (updated' ! m))"
    by (auto intro: tickNode_stateStep)
next
  assume t: "simulationTick nodes cfg tk rnd = Inr ticked \<and> m < length nodes
      \<and> 0 < recoveryTime cfg"
  then have r: "tickRel cfg tk (nodes ! m) (ticked ! m)"
    by (auto intro: simulationTick_nodes)
  from tickRel_state [OF r] t
  show "stateStep (state (nodes ! m)) (state (ticked ! m))"
    by auto
next
  assume t: "simulationTick nodes cfg tk rnd = Inr ticked \<and> m < length nodes
      \<and> state (nodes ! m) \<noteq> Healthy"
  then have r: "tickRel cfg tk (nodes ! m) (ticked ! m)"
    by (auto intro: simulationTick_nodes)
  from tickRel_state [OF r] t
  show "stateStep (state (nodes ! m)) (state (ticked ! m))"
    by auto
next
  assume "applyFactCheck nodes nodeId rnd' = Inr checked \<and> m < length nodes"
  then show "stateStep (state (nodes ! m)) (state (checked ! m))"
    by (auto intro: applyFactCheck_stateStep)
next
  assume "mset (shuffle (healthyNodes nodes)) = mset (healthyNodes nodes) \<and> m < length nodes"
  then show "stateStep (state (nodes ! m)) (state (applyAwarenessCampaign nodes shuffle ! m))"
    by (auto intro: applyAwarenessCampaign_stateStep)
qed

lemma tickNode_pair:
  "tickNode zeroDraws pairConfig 1 0 (pairNodes, 0)
     = Inr ([testNode 0 Infected 0 [1], testNode 1 Infected 1 [0]], 1)"
  by (simp add: tickNode_def pairNodes_def testNode_def pairConfig_def zeroDraws_def)

lemma simulationTick_pair_late:
  "simulationTick pairNodes pairConfig 7 zeroDraws
     = Inr [testNode 0 Recovered 0 [1], testNode 1 Infected 7 [0]]"
  by (simp add: simulationTick_def tickNode_def pairNodes_def testNode_def pairConfig_def
      zeroDraws_def upt_rec)

theorem state_graph_witness:
  "tickNode zeroDraws pairConfig 7 0 (pairNodes, 0)
     = Inr ([testNode 0 Recovered 0 [1], testNode 1 Infected 7 [0]], 1)
   \<and> 0 < length pairNodes \<and> 1 < length pairNodes
   \<and> simulationTick pairNodes pairConfig 7 zeroDraws
        = Inr [testNode 0 Recovered 0 [1], testNode 1 Infected 7 [0]]
   \<and> 0 < recoveryTime pairConfig
   \<and> state (pairNodes ! 0) \<noteq> Healthy
   \<and> applyFactCheck pairNodes 0 zeroDraws
        = Inr [testNode 0 Recovered 0 [1], testNode 1 Aware (- 1) [0]]
   \<and> mset (id (healthyNodes pairNodes)) = mset (healthyNodes pairNodes)
   \<and> state (pairNodes ! 0) = Infected \<and> state (pairNodes ! 1) = Healthy
   \<and> stateStep Infected Recovered \<and> stateStep Healthy Infected \<and> stateStep Healthy Aware"
proof -
  have l: "0 < length pairNodes" "1 < length pairNodes"
    and s: "state (pairNodes ! 0) = Infected" "state (pairNodes ! 1) = Healthy"
    and p: "0 < recoveryTime pairConfig"
    by (simp_all add: pairNodes_def testNode_def pairConfig_def)
  have n: "tickNode zeroDraws pairConfig 7 0 (pairNodes, 0)
     = Inr ([testNode 0 Recovered 0 [1], testNode 1 Infected 7 [0]], 1)"
    by (simp add: tickNode_def pairNodes_def testNode_def pairConfig_def zeroDraws_def)
  have t: "state ([testNode 0 Recovered 0 [1], testNode 1 Infected 7 [0]] ! 0) = Recovered"
    "state ([testNode 0 Recovered 0 [1], testNode 1 Infected 7 [0]] ! 1) = Infected"
    and f: "state ([testNode 0 Recovered 0 [1], testNode 1 Aware (- 1) [0]] ! 1) = Aware"
    by (simp_all add: testNode_def)
  note g0 = state_graph [of zeroDraws pairConfig 7 0 pairNodes 0
      "[testNode 0 Recovered 0 [1], testNode 1 Infected 7 [0]]" 1 0 pairNodes
      "[testNode 0 Recovered 0 [1], testNode 1 Infected 7 [0]]" 0 zeroDraws
      "[testNode 0 Recovered 0 [1], testNode 1 Aware (- 1) [0]]" id]
  note g1 = state_graph [of zeroDraws pairConfig 7 0 pairNodes 0
      "[testNode 0 Recovered 0 [1], testNode 1 Infected 7 [0]]" 1 1 pairNodes
      "[testNode 0 Recovered 0 [1], testNode 1 Infected 7 [0]]" 0 zeroDraws
      "[testNode 0 Recovered 0 [1], testNode 1 Aware (- 1) [0]]" id]
  from g0 have "stateStep (state (pairNodes ! 0))
          (state ([testNode 0 Recovered 0 [1], testNode 1 Infected 7 [0]] ! 0))"
    using simulationTick_pair_late l s by simp
  then have a: "stateStep Infected Recovered" unfolding s t .
  from g1 have "stateStep (state (pairNodes ! 1))
          (state ([testNode 0 Recovered 0 [1], testNode 1 Infected 7 [0]] ! 1))"
    and "stateStep (state (pairNodes ! 1))
          (state ([testNode 0 Recovered 0 [1], testNode 1 Aware (- 1) [0]] ! 1))"
    using simulationTick_pair_late applyFactCheck_pair l p by simp_all
  then have b: "stateStep Healthy Infected" "stateStep Healthy Aware"
    unfolding s t f by simp_all
  have q: "state (pairNodes ! 0) \<noteq> Healthy" using s by simp
  have r: "mset (id (healthyNodes pairNodes)) = mset (healthyNodes pairNodes)" by simp
  show ?thesis
    by (intro conjI n l simulationTick_pair_late p q applyFactCheck_pair r s a b)
qed

text \<open>
  With recoveryTime = 0 one call of simulationTick takes node 2, healthy before the call,
  to recovered: node 0 infects node 1, node 1 infects node 2, and each recovers when the
  loop reaches it.
\<close>

theorem healthy_to_recovered_counterexample:
  "state (tripleNodes ! 2) = Healthy
   \<and> simulationTick tripleNodes instantConfig 2 zeroDraws
        = Inr [testNode 0 Recovered 0 [1], testNode 1 Recovered 2 [0, 2],
               testNode 2 Recovered 2 [1]]
   \<and> \<not> stateStep Healthy Recovered"
  by (simp add: simulationTick_def tickNode_def tripleNodes_def testNode_def instantConfig_def
      zeroDraws_def upt_rec stateStep_def numeral_3_eq_3)

section \<open>Recovery timing\<close>

text \<open>
  C3. An infected node whose infectedAt is T is made recovered by simulationTick only at
  a tick that is at least T + recoveryTime. A node that is healthy when the tick starts,
  and so can only be infected during this tick, is not recovered by the same tick when
  recoveryTime is positive.
\<close>

theorem recovery_timing:
  "(simulationTick nodes cfg tk rnd = Inr ticked \<and> m < length nodes
      \<and> state (nodes ! m) = Infected \<and> infectedAt (nodes ! m) = T
      \<and> state (ticked ! m) = Recovered
      \<longrightarrow> T + recoveryTime cfg \<le> tk)
   \<and> (simulationTick nodes cfg tk rnd = Inr ticked \<and> m < length nodes
      \<and> state (nodes ! m) = Healthy \<and> 0 < recoveryTime cfg
      \<longrightarrow> state (ticked ! m) \<noteq> Recovered)"
proof (intro conjI impI)
  assume a: "simulationTick nodes cfg tk rnd = Inr ticked \<and> m < length nodes
      \<and> state (nodes ! m) = Infected \<and> infectedAt (nodes ! m) = T
      \<and> state (ticked ! m) = Recovered"
  then have "tickRel cfg tk (nodes ! m) (ticked ! m)"
    by (auto intro: simulationTick_nodes)
  with a show "T + recoveryTime cfg \<le> tk"
    by (auto simp: tickRel_def infectStep_def recoverStep_def)
next
  assume a: "simulationTick nodes cfg tk rnd = Inr ticked \<and> m < length nodes
      \<and> state (nodes ! m) = Healthy \<and> 0 < recoveryTime cfg"
  then have "tickRel cfg tk (nodes ! m) (ticked ! m)"
    by (auto intro: simulationTick_nodes)
  with a show "state (ticked ! m) \<noteq> Recovered"
    by (auto simp: tickRel_def infectStep_def recoverStep_def)
qed

lemma simulationTick_pair_5:
  "simulationTick pairNodes pairConfig 5 zeroDraws
     = Inr [testNode 0 Recovered 0 [1], testNode 1 Infected 5 [0]]"
  by (simp add: simulationTick_def tickNode_def pairNodes_def testNode_def pairConfig_def
      zeroDraws_def upt_rec)

theorem recovery_timing_witness:
  "simulationTick pairNodes pairConfig 5 zeroDraws
     = Inr [testNode 0 Recovered 0 [1], testNode 1 Infected 5 [0]]
   \<and> state (pairNodes ! 0) = Infected \<and> infectedAt (pairNodes ! 0) = 0
   \<and> state ([testNode 0 Recovered 0 [1], testNode 1 Infected 5 [0]] ! 0) = Recovered
   \<and> 0 + recoveryTime pairConfig \<le> 5
   \<and> state (pairNodes ! 1) = Healthy \<and> 0 < recoveryTime pairConfig
   \<and> state ([testNode 0 Recovered 0 [1], testNode 1 Infected 5 [0]] ! 1) \<noteq> Recovered"
  using recovery_timing [of pairNodes pairConfig 5 zeroDraws
      "[testNode 0 Recovered 0 [1], testNode 1 Infected 5 [0]]" 0 0]
    recovery_timing [of pairNodes pairConfig 5 zeroDraws
      "[testNode 0 Recovered 0 [1], testNode 1 Infected 5 [0]]" 1 "- 1"]
    simulationTick_pair_5
  by (simp add: pairNodes_def testNode_def pairConfig_def)

text \<open>
  With recoveryTime = 0 node 1, healthy before the tick, is infected by node 0 during
  tick 1 (infectedAt = 1) and recovered when the loop reaches it in the same tick.
\<close>

theorem recovery_same_tick_counterexample:
  "state (pairNodes ! 1) = Healthy
   \<and> simulationTick pairNodes instantConfig 1 zeroDraws
        = Inr [testNode 0 Recovered 0 [1], testNode 1 Recovered 1 [0]]"
  by (simp add: simulationTick_def tickNode_def pairNodes_def testNode_def instantConfig_def
      zeroDraws_def upt_rec)

section \<open>Edge symmetry\<close>






section \<open>Target degree\<close>

lemma connectLoop_added:
  "int (fst (snd (snd s))) \<le> tc \<Longrightarrow>
     int (fst (snd (snd (connectLoop rnd maxDist tc i ds s)))) \<le> tc
     \<and> (\<exists>new. fst (snd (connectLoop rnd maxDist tc i ds s)) = fst (snd s) @ new
            \<and> length new + fst (snd (snd s)) = fst (snd (snd (connectLoop rnd maxDist tc i ds s)))
            \<and> (\<forall>e\<in>set new. source e = i))"
proof (induction rnd maxDist tc i ds s rule: connectLoop.induct)
  case (1 rnd maxDist tc i s)
  then show ?case by simp
next
  case (2 rnd maxDist tc i j dst ds nodes edges added k)
  show ?case
  proof (cases "\<not> int added \<ge> tc \<and> j \<notin> set (connections (nodes ! i))
                \<and> (rnd k < exp (- dst / (maxDist * 0.15)) \<or> added = 0)")
    case True
    let ?s = "(addEdge i j nodes, edges @ [\<lparr>source = i, target = j\<rparr>], added + 1, Suc k)"
    have eq: "connectLoop rnd maxDist tc i ((j, dst) # ds) (nodes, edges, added, k)
                = connectLoop rnd maxDist tc i ds ?s"
      using True by simp
    from True have "int (fst (snd (snd ?s))) \<le> tc" by simp
    with 2(2) True obtain new where
      n: "int (fst (snd (snd (connectLoop rnd maxDist tc i ds ?s)))) \<le> tc"
         "fst (snd (connectLoop rnd maxDist tc i ds ?s)) = fst (snd ?s) @ new"
         "length new + fst (snd (snd ?s)) = fst (snd (snd (connectLoop rnd maxDist tc i ds ?s)))"
         "\<forall>e\<in>set new. source e = i"
      by auto
    show ?thesis
      unfolding eq
    proof (intro conjI exI [of _ "\<lparr>source = i, target = j\<rparr> # new"])
      show "int (fst (snd (snd (connectLoop rnd maxDist tc i ds ?s)))) \<le> tc" by (rule n(1))
      show "fst (snd (connectLoop rnd maxDist tc i ds ?s))
              = fst (snd (nodes, edges, added, k)) @ \<lparr>source = i, target = j\<rparr> # new"
        using n(2) by simp
      show "length (\<lparr>source = i, target = j\<rparr> # new) + fst (snd (snd (nodes, edges, added, k)))
              = fst (snd (snd (connectLoop rnd maxDist tc i ds ?s)))"
        using n(3) by simp
      show "\<forall>e\<in>set (\<lparr>source = i, target = j\<rparr> # new). source e = i"
        using n(4) by simp
    qed
  next
    case False
    with 2 show ?thesis by (auto split: if_splits)
  qed
qed

lemma perturbation_bounds:
  assumes "0 \<le> r" and "r < 1"
  shows "- 1 \<le> dbl (dbl (r - 0.5) * 2) \<and> dbl (dbl (r - 0.5) * 2) \<le> 1"
proof -
  have a: "\<bar>r - 0.5\<bar> < 2 ^ (53 - 1)" using assms by (simp add: abs_if)
  have "of_int (- 1) / 2 ^ 1 \<le> dbl (r - 0.5)"
    using assms by (intro dbl_ge a) simp_all
  moreover have "dbl (r - 0.5) \<le> of_int 1 / 2 ^ 1"
    using assms by (intro dbl_le a) simp_all
  ultimately have y: "- 1 \<le> dbl (r - 0.5) * 2" "dbl (r - 0.5) * 2 \<le> 1" by simp_all
  then have b: "\<bar>dbl (r - 0.5) * 2\<bar> < 2 ^ (53 - 0)" by (simp add: abs_if)
  have "of_int (- 1) / 2 ^ 0 \<le> dbl (dbl (r - 0.5) * 2)"
    using y by (intro dbl_ge b) simp_all
  moreover have "dbl (dbl (r - 0.5) * 2) \<le> of_int 1 / 2 ^ 0"
    using y by (intro dbl_le b) simp_all
  ultimately show ?thesis by simp
qed

lemma rounded_sum_bounds:
  assumes "- 1 \<le> u" and "u \<le> 1" and "\<bar>density\<bar> < 2 ^ 50"
  shows "\<lfloor>density\<rfloor> - 1 \<le> \<lfloor>dbl (density + u)\<rfloor> \<and> \<lfloor>dbl (density + u)\<rfloor> \<le> \<lceil>density\<rceil> + 1"
proof -
  have b: "\<bar>density + u\<bar> < 2 ^ (53 - 0)" using assms by (simp add: abs_if split: if_splits)
  have "of_int (\<lfloor>density\<rfloor> - 1) \<le> density + u"
    using assms(1) of_int_floor_le [of density] by (simp only: of_int_diff of_int_1; linarith)
  then have "of_int (\<lfloor>density\<rfloor> - 1) / 2 ^ 0 \<le> dbl (density + u)"
    by (intro dbl_ge b) simp_all
  then have lo: "\<lfloor>density\<rfloor> - 1 \<le> \<lfloor>dbl (density + u)\<rfloor>"
    by (simp add: le_floor_iff)
  have "density + u \<le> of_int (\<lceil>density\<rceil> + 1)"
    using assms(2) le_of_int_ceiling [of density] by (simp only: of_int_add of_int_1; linarith)
  then have "dbl (density + u) \<le> of_int (\<lceil>density\<rceil> + 1) / 2 ^ 0"
    by (intro dbl_le b) simp_all
  then have "\<lfloor>dbl (density + u)\<rfloor> \<le> \<lfloor>real_of_int (\<lceil>density\<rceil> + 1)\<rfloor>"
    by (intro floor_mono) simp
  then have hi: "\<lfloor>dbl (density + u)\<rfloor> \<le> \<lceil>density\<rceil> + 1" by simp
  from lo hi show ?thesis ..
qed

text \<open>
  C7. In the loop of generateNetwork, the pass of node \<open>i\<close> reads one draw r and walks its
  candidates with the target degree max(1, floor(connectionDensity + u)), where
  u = (r - 0.5) * 2 and the sum is the double-precision sum, rounded down and not to the
  nearest integer. For a draw in [0, 1) the perturbation u is in [-1, 1], the target degree
  lies between the density rounded down minus one and the density rounded up plus one
  (and is at least 1), and the pass adds at most that many edges, all with source \<open>i\<close>.
\<close>

theorem target_degree:
  "0 \<le> rnd k \<and> rnd k < 1 \<and> \<bar>connectionDensity cfg\<bar> < 2 ^ 50 \<longrightarrow>
     (\<exists>u tc nodes' edges' new added k'.
        u = dbl (dbl (rnd k - 0.5) * 2) \<and> - 1 \<le> u \<and> u \<le> 1
        \<and> tc = max 1 \<lfloor>dbl (connectionDensity cfg + u)\<rfloor>
        \<and> max 1 (\<lfloor>connectionDensity cfg\<rfloor> - 1) \<le> tc
        \<and> tc \<le> max 1 (\<lceil>connectionDensity cfg\<rceil> + 1)
        \<and> connectLoop rnd maxDist tc i (distances nodes i) (nodes, edges, 0, Suc k)
            = (nodes', edges', added, k')
        \<and> edgeLoop rnd cfg maxDist (i # rest) (nodes, edges, k)
            = edgeLoop rnd cfg maxDist rest (nodes', edges', k')
        \<and> int added \<le> tc
        \<and> edges' = edges @ new \<and> length new = added \<and> (\<forall>e\<in>set new. source e = i))"
proof
  assume a: "0 \<le> rnd k \<and> rnd k < 1 \<and> \<bar>connectionDensity cfg\<bar> < 2 ^ 50"
  define u where "u = dbl (dbl (rnd k - 0.5) * 2)"
  define tc where "tc = max 1 \<lfloor>dbl (connectionDensity cfg + u)\<rfloor>"
  have t: "tc = targetConns (connectionDensity cfg) (rnd k)"
    by (simp add: tc_def u_def targetConns_def)
  have u: "- 1 \<le> u" "u \<le> 1"
    using perturbation_bounds [of "rnd k"] a by (simp_all add: u_def)
  have b: "max 1 (\<lfloor>connectionDensity cfg\<rfloor> - 1) \<le> tc"
    "tc \<le> max 1 (\<lceil>connectionDensity cfg\<rceil> + 1)"
    using rounded_sum_bounds [OF u, of "connectionDensity cfg"] a
    unfolding tc_def by linarith+
  obtain nodes' edges' added k' where
    c: "connectLoop rnd maxDist tc i (distances nodes i) (nodes, edges, 0, Suc k)
          = (nodes', edges', added, k')"
    by (metis prod_cases4)
  have e: "edgeLoop rnd cfg maxDist (i # rest) (nodes, edges, k)
             = edgeLoop rnd cfg maxDist rest (nodes', edges', k')"
    using c t by simp
  have "0 \<le> tc" by (simp add: tc_def)
  then have "int (fst (snd (snd (nodes, edges, 0::nat, Suc k)))) \<le> tc" by simp
  from connectLoop_added [OF this, of rnd maxDist i "distances nodes i"] c
  obtain new where n: "int added \<le> tc" "edges' = edges @ new" "length new = added"
    "\<forall>e\<in>set new. source e = i"
    by auto
  from u b c e n show "\<exists>u tc nodes' edges' new added k'.
        u = dbl (dbl (rnd k - 0.5) * 2) \<and> - 1 \<le> u \<and> u \<le> 1
        \<and> tc = max 1 \<lfloor>dbl (connectionDensity cfg + u)\<rfloor>
        \<and> max 1 (\<lfloor>connectionDensity cfg\<rfloor> - 1) \<le> tc
        \<and> tc \<le> max 1 (\<lceil>connectionDensity cfg\<rceil> + 1)
        \<and> connectLoop rnd maxDist tc i (distances nodes i) (nodes, edges, 0, Suc k)
            = (nodes', edges', added, k')
        \<and> edgeLoop rnd cfg maxDist (i # rest) (nodes, edges, k)
            = edgeLoop rnd cfg maxDist rest (nodes', edges', k')
        \<and> int added \<le> tc
        \<and> edges' = edges @ new \<and> length new = added \<and> (\<forall>e\<in>set new. source e = i)"
    unfolding u_def [symmetric] tc_def [symmetric]
    by (intro exI [of _ u] exI [of _ tc] exI [of _ nodes'] exI [of _ edges'] exI [of _ new]
        exI [of _ added] exI [of _ k']) (simp add: u_def tc_def)
qed

lemma targetConns_sparse: "targetConns (connectionDensity sparseConfig) (highDraws k) = 1"
proof -
  have "\<lfloor>(14::real) / 8\<rfloor> = 1" by (simp add: floor_eq_iff)
  then show ?thesis
    using targetConns_dyadic [of "highDraws k" 3 3 "connectionDensity sparseConfig" 14]
    by (simp add: sparseConfig_def highDraws_def)
qed

lemma placeNodes_sparse:
  "placeNodes highDraws 120 120 3
     = [testNode 0 Healthy (- 1) [], testNode (Suc 0) Healthy (- 1) [],
        testNode (Suc (Suc 0)) Healthy (- 1) []]"
  by (simp add: placeNodes_def mkNode_def testNode_def highDraws_def upt_rec numeral_3_eq_3)

lemma distances_sparse:
  "distances [testNode 0 s0 t0 c0, testNode (Suc 0) s1 t1 c1, testNode (Suc (Suc 0)) s2 t2 c2] 0
     = [(Suc 0, 0), (Suc (Suc 0), 0)]"
  "distances [testNode 0 s0 t0 c0, testNode (Suc 0) s1 t1 c1, testNode (Suc (Suc 0)) s2 t2 c2] (Suc 0)
     = [(0, 0), (Suc (Suc 0), 0)]"
  "distances [testNode 0 s0 t0 c0, testNode (Suc 0) s1 t1 c1, testNode (Suc (Suc 0)) s2 t2 c2]
     (Suc (Suc 0)) = [(0, 0), (Suc 0, 0)]"
  by (simp_all add: distances_def hypot_def testNode_def upt_rec numeral_3_eq_3)

lemma addEdge_testNode:
  "addEdge 0 (Suc 0) [testNode 0 s0 t0 c0, testNode (Suc 0) s1 t1 c1, n2]
     = [testNode 0 s0 t0 (c0 @ [Suc 0]), testNode (Suc 0) s1 t1 (c1 @ [0]), n2]"
  "addEdge (Suc 0) (Suc (Suc 0)) [n0, testNode (Suc 0) s1 t1 c1, testNode (Suc (Suc 0)) s2 t2 c2]
     = [n0, testNode (Suc 0) s1 t1 (c1 @ [Suc (Suc 0)]), testNode (Suc (Suc 0)) s2 t2 (c2 @ [Suc 0])]"
  "addEdge (Suc (Suc 0)) 0 [testNode 0 s0 t0 c0, n1, testNode (Suc (Suc 0)) s2 t2 c2]
     = [testNode 0 s0 t0 (c0 @ [Suc (Suc 0)]), n1, testNode (Suc (Suc 0)) s2 t2 (c2 @ [0])]"
  by (simp_all add: addEdge_def pushConn_def testNode_def)

lemma connections_testNode: "connections (testNode i s t conns) = conns"
  by (simp add: testNode_def)

lemma edgeLoop_sparse:
  "edgeLoop highDraws sparseConfig maxDist [0..<3]
     ([testNode 0 Healthy (- 1) [], testNode (Suc 0) Healthy (- 1) [],
       testNode (Suc (Suc 0)) Healthy (- 1) []], [], 6)
   = ([testNode 0 Healthy (- 1) [1, 2], testNode 1 Healthy (- 1) [0, 2],
       testNode 2 Healthy (- 1) [1, 0]],
      [\<lparr>source = 0, target = 1\<rparr>, \<lparr>source = 1, target = 2\<rparr>, \<lparr>source = 2, target = 0\<rparr>], 12)"
proof -
  have u: "[0..<3] = [0, Suc 0, Suc (Suc 0)]" by (simp add: upt_rec numeral_3_eq_3)
  have h: "highDraws k < 1" for k by (simp add: highDraws_def)
  show ?thesis
    unfolding u
    by (simp add: targetConns_sparse distances_sparse addEdge_testNode connections_testNode h
        numeral_2_eq_2)
qed

theorem target_degree_witness:
  "0 \<le> highDraws 6 \<and> highDraws 6 < 1 \<and> \<bar>connectionDensity sparseConfig\<bar> < 2 ^ 50
   \<and> max 1 \<lfloor>dbl (connectionDensity sparseConfig + dbl (dbl (highDraws 6 - 0.5) * 2))\<rfloor> = 1
   \<and> (\<exists>tc nodes' edges' new added k'.
         tc = max 1 \<lfloor>dbl (connectionDensity sparseConfig + dbl (dbl (highDraws 6 - 0.5) * 2))\<rfloor>
         \<and> tc \<le> max 1 (\<lceil>connectionDensity sparseConfig\<rceil> + 1)
         \<and> connectLoop highDraws 1 tc 0 (distances (placeNodes highDraws 120 120 3) 0)
              (placeNodes highDraws 120 120 3, [], 0, Suc 6) = (nodes', edges', added, k')
         \<and> edgeLoop highDraws sparseConfig 1 [0, 1, 2] (placeNodes highDraws 120 120 3, [], 6)
              = edgeLoop highDraws sparseConfig 1 [1, 2] (nodes', edges', k')
         \<and> int added \<le> tc \<and> edges' = [] @ new \<and> length new = added)"
proof -
  have h: "0 \<le> highDraws 6" "highDraws 6 < 1" "\<bar>connectionDensity sparseConfig\<bar> < 2 ^ 50"
    by (simp_all add: highDraws_def sparseConfig_def)
  have t: "max 1 \<lfloor>dbl (connectionDensity sparseConfig + dbl (dbl (highDraws 6 - 0.5) * 2))\<rfloor> = 1"
    using targetConns_sparse [of 6] by (simp only: targetConns_def)
  from target_degree [of highDraws 6 sparseConfig 1 0 "placeNodes highDraws 120 120 3" "[]"
      "[1, 2]"] h
  have "\<exists>tc nodes' edges' new added k'.
         tc = max 1 \<lfloor>dbl (connectionDensity sparseConfig + dbl (dbl (highDraws 6 - 0.5) * 2))\<rfloor>
         \<and> tc \<le> max 1 (\<lceil>connectionDensity sparseConfig\<rceil> + 1)
         \<and> connectLoop highDraws 1 tc 0 (distances (placeNodes highDraws 120 120 3) 0)
              (placeNodes highDraws 120 120 3, [], 0, Suc 6) = (nodes', edges', added, k')
         \<and> edgeLoop highDraws sparseConfig 1 [0, 1, 2] (placeNodes highDraws 120 120 3, [], 6)
              = edgeLoop highDraws sparseConfig 1 [1, 2] (nodes', edges', k')
         \<and> int added \<le> tc \<and> edges' = [] @ new \<and> length new = added"
    by blast
  with h t show ?thesis by blast
qed

text \<open>
  Density 1 and every draw 0.875 on three nodes at the same place: 1.75 rounded to the
  nearest integer is 2, and both candidates of node 0 would be accepted (the draw is below
  the acceptance probability 1), yet node 0 starts one edge only, its target degree being
  floor 1.75 = 1; the edge between nodes 0 and 2 is added later by the pass of node 2.
\<close>

theorem target_degree_round_counterexample:
  "targetConns (connectionDensity sparseConfig) (highDraws 6) = 1
   \<and> max 1 (round (connectionDensity sparseConfig + (highDraws 6 - 0.5) * 2)) = 2
   \<and> generateNetwork sparseConfig 120 120 highDraws id
       = Inr ([testNode 0 Healthy (- 1) [1, 2], testNode 1 Healthy (- 1) [0, 2],
               testNode 2 Healthy (- 1) [1, 0]],
              [\<lparr>source = 0, target = 1\<rparr>, \<lparr>source = 1, target = 2\<rparr>,
               \<lparr>source = 2, target = 0\<rparr>])"
proof -
  have n: "nat (nodeCount sparseConfig) = 3" "nat (initialInfected sparseConfig) = 0"
    "\<not> nodeCount sparseConfig < 0"
    by (simp_all add: sparseConfig_def)
  have "\<lfloor>(9::real) / 4\<rfloor> = 2" by (simp add: floor_eq_iff)
  then have r: "max 1 (round (connectionDensity sparseConfig + (highDraws 6 - 0.5) * 2)) = 2"
    by (simp add: round_def sparseConfig_def highDraws_def)
  have g: "generateNetwork sparseConfig 120 120 highDraws id
       = Inr ([testNode 0 Healthy (- 1) [1, 2], testNode 1 Healthy (- 1) [0, 2],
               testNode 2 Healthy (- 1) [1, 0]],
              [\<lparr>source = 0, target = 1\<rparr>, \<lparr>source = 1, target = 2\<rparr>,
               \<lparr>source = 2, target = 0\<rparr>])"
    unfolding generateNetwork_def Let_def n(1,2) placeNodes_sparse
    using edgeLoop_sparse [of "sqrt (120 * 120 + 120 * 120)"] n(3)
    by simp
  show ?thesis
    by (intro conjI targetConns_sparse r g)
qed

text \<open>
  The draw just below 1 with density 8: the exact sum 9 - 2^-51 is not a double and rounds
  up to 9, so the target degree is 9, one above the density.
\<close>

lemma dbl_rounds_up: "dbl (9 - 1 / 2 ^ 51) = 9"
proof -
  let ?x = "9 - 1 / 2 ^ 51 :: real"
  have pos: "0 < ?x" by simp
  have "(2::real) powr 3 = 2 ^ 3"
    using powr_realpow [of 2 3] by simp
  then have "(2::real) powr 3 \<le> ?x" by simp
  then have lo: "3 \<le> log 2 ?x"
    using pos by (simp add: le_log_iff)
  have "(2::real) powr 4 = 2 ^ 4"
    using powr_realpow [of 2 4] by simp
  then have "?x < (2::real) powr 4" by simp
  then have hi: "log 2 ?x < 4"
    using pos by (simp add: log_less_iff)
  have "\<lfloor>log 2 \<bar>?x\<bar>\<rfloor> = 3"
    using lo hi by (simp add: floor_eq_iff)
  then have "ulp ?x = 2 powr (- 49)"
    by (simp add: ulp_def)
  also have "\<dots> = 1 / 2 ^ 49"
    using powr_realpow [of 2 49] by (simp add: powr_minus_divide)
  finally have u: "ulp ?x = 1 / 2 ^ 49" .
  have q: "?x / ulp ?x = 9 * 2 ^ 49 - 1 / 4"
    unfolding u by simp
  have f: "\<lfloor>9 * 2 ^ 49 - 1 / 4 :: real\<rfloor> = 9 * 2 ^ 49 - 1"
    by (simp add: floor_eq_iff)
  have "roundEven (9 * 2 ^ 49 - 1 / 4) = 9 * 2 ^ 49"
    unfolding roundEven_def f by simp
  then show ?thesis
    unfolding dbl_def q u by simp
qed

lemma targetConns_rounds_up: "targetConns 8 (1 - 1 / 2 ^ 52) = 9"
proof -
  have 1: "dbl (1 - 1 / 2 ^ 52 - 0.5) = 1 / 2 - 1 / 2 ^ 52"
    using dbl_exact [of "1 / 2 - 1 / 2 ^ 52" "2 ^ 51 - 1" 52] by simp
  have 2: "dbl ((1 / 2 - 1 / 2 ^ 52) * 2) = 1 - 1 / 2 ^ 51"
    using dbl_exact [of "1 - 1 / 2 ^ 51" "2 ^ 51 - 1" 51] by simp
  have 3: "8 + (1 - 1 / 2 ^ 51) = (9 - 1 / 2 ^ 51 :: real)" by simp
  show ?thesis
    unfolding targetConns_def 1 2 3 dbl_rounds_up by simp
qed

section \<open>Minimum degree\<close>

text \<open>
  C8. In a network of at least two nodes returned by generateNetwork every node has at
  least one connection, whatever the density.
\<close>

theorem minimum_degree:
  "generateNetwork cfg width height rnd shuffle = Inr (nodes, edges) \<and> 2 \<le> nodeCount cfg
     \<and> m < length nodes
   \<longrightarrow> 1 \<le> length (connections (nodes ! m))"
proof
  assume a: "generateNetwork cfg width height rnd shuffle = Inr (nodes, edges)
     \<and> 2 \<le> nodeCount cfg \<and> m < length nodes"
  then have "connections (nodes ! m) \<noteq> []"
    using generateNetwork_degree [of cfg width height rnd shuffle nodes edges m] by simp
  then show "1 \<le> length (connections (nodes ! m))"
    by (cases "connections (nodes ! m)") simp_all
qed

theorem minimum_degree_witness:
  "generateNetwork pairConfig 120 120 zeroDraws id = Inr (pairNodes, [\<lparr>source = 0, target = 1\<rparr>])
   \<and> 2 \<le> nodeCount pairConfig \<and> 1 < length pairNodes
   \<and> 1 \<le> length (connections (pairNodes ! 1))"
  using minimum_degree [of pairConfig 120 120 zeroDraws id pairNodes
      "[\<lparr>source = 0, target = 1\<rparr>]" 1] generateNetwork_pair
  by (simp add: pairConfig_def pairNodes_def)

lemma placeNodes_single:
  "placeNodes zeroDraws 120 120 1 = [testNode 0 Healthy (- 1) []]"
  by (simp add: placeNodes_def mkNode_def testNode_def zeroDraws_def)

lemma edgeLoop_single:
  "edgeLoop zeroDraws cfg maxDist [0..<1] ([testNode 0 Healthy (- 1) []], [], 2)
     = ([testNode 0 Healthy (- 1) []], [], 3)"
  by (simp add: distances_def)

text \<open>A network of one node: the node has no candidate and stays without connection.\<close>

theorem single_node_counterexample:
  "generateNetwork singleConfig 120 120 zeroDraws id = Inr ([testNode 0 Infected 0 []], [])
   \<and> length (connections (testNode 0 Infected 0 [])) = 0"
proof -
  have n: "nat (nodeCount singleConfig) = 1" "nat (initialInfected singleConfig) = 1"
    by (simp_all add: singleConfig_def)
  have s: "seedLoop [0] [0] [testNode 0 Healthy (- 1) []] = Inr [testNode 0 Infected 0 []]"
    by (simp add: testNode_def)
  have "generateNetwork singleConfig 120 120 zeroDraws id = Inr ([testNode 0 Infected 0 []], [])"
    unfolding generateNetwork_def Let_def n placeNodes_single
    using edgeLoop_single [of singleConfig "sqrt (120 * 120 + 120 * 120)"] s
    by (simp add: singleConfig_def)
  then show ?thesis by (simp add: testNode_def)
qed

section \<open>Inputs out of range\<close>

lemma seedLoop_indices:
  "seedLoop shuffled idxs nodes = Inr out \<Longrightarrow> \<forall>i\<in>set idxs. i < length shuffled"
  by (induction shuffled idxs nodes rule: seedLoop.induct) (auto split: if_splits)

lemma seedLoop_error:
  "seedLoop shuffled idxs nodes = Inl e \<Longrightarrow> e = TypeError"
  by (induction shuffled idxs nodes rule: seedLoop.induct) (auto split: if_splits)

lemma generateNetwork_too_many_seeds:
  assumes "0 \<le> nodeCount cfg" and "nodeCount cfg < initialInfected cfg"
    and "length (shuffle [0..<nat (nodeCount cfg)]) = nat (nodeCount cfg)"
  shows "generateNetwork cfg width height rnd shuffle = Inl TypeError"
proof (cases "generateNetwork cfg width height rnd shuffle")
  case (Inl e)
  with assms(1) show ?thesis
    by (auto simp: generateNetwork_def Let_def split: prod.splits sum.splits dest: seedLoop_error)
next
  case (Inr res)
  obtain nodes edges where "res = (nodes, edges)" by (cases res)
  with Inr obtain ns where
    "seedLoop (shuffle [0..<nat (nodeCount cfg)]) [0..<nat (initialInfected cfg)] ns = Inr nodes"
    by (auto elim: generateNetwork_parts)
  from seedLoop_indices [OF this] assms have False by auto
  then show ?thesis ..
qed

text \<open>
  C5. With initialInfected = 2 and nodeCount = 1 generateNetwork does not clamp the number
  of seeds: the second seed reads past the end of the shuffled ids and the call throws.
\<close>

theorem too_many_seeds_throws:
  "generateNetwork overfullConfig 120 120 zeroDraws id = Inl TypeError"
proof -
  have n: "nat (nodeCount overfullConfig) = 1" "nat (initialInfected overfullConfig) = 2"
    by (simp_all add: overfullConfig_def)
  have s: "seedLoop [0] [0, 1] [testNode 0 Healthy (- 1) []] = Inl TypeError"
    by simp
  have u: "[0..<2] = [0, 1]" by (simp add: upt_rec)
  show ?thesis
    unfolding generateNetwork_def Let_def n placeNodes_single
    using edgeLoop_single [of overfullConfig "sqrt (120 * 120 + 120 * 120)"] s
    by (simp add: overfullConfig_def u)
qed

lemma applyFactCheck_out_of_range:
  "applyFactCheck nodes (length nodes + d) rnd = Inl TypeError"
  by (simp add: applyFactCheck_def)

text \<open>
  C6. A node id past the end of the array: applyFactCheck reads the state of
  \<open>undefined\<close> and throws instead of returning the array unchanged.
\<close>

theorem fact_check_out_of_range_throws:
  "applyFactCheck pairNodes 2 zeroDraws = Inl TypeError"
  by (simp add: applyFactCheck_def pairNodes_def)

section \<open>Fact-check\<close>

lemma healthyOf_update:
  "i \<notin> set ids \<Longrightarrow> healthyOf (nodes[i := v]) ids = healthyOf nodes ids"
  unfolding healthyOf_def
proof (rule filter_cong)
  fix x
  assume "i \<notin> set ids" and "x \<in> set ids"
  then have "x \<noteq> i" by auto
  then show "(state (nodes[i := v] ! x) = Healthy) = (state (nodes ! x) = Healthy)"
    by simp
qed simp

lemma healthyOf_Cons:
  "healthyOf nodes (j # ids)
     = (if state (nodes ! j) = Healthy then j # healthyOf nodes ids else healthyOf nodes ids)"
  by (simp add: healthyOf_def)

lemma healthyOf_subset: "set (healthyOf nodes ids) \<subseteq> set ids"
  by (auto simp: healthyOf_def)

lemma immunize_spec:
  assumes "distinct ns" and "\<forall>j\<in>set ns. j < length updated"
  shows "\<exists>out. immunize rnd ns (updated, k) = Inr (out, k + length (healthyOf updated ns))
           \<and> length out = length updated
           \<and> (\<forall>p<length (healthyOf updated ns).
                 out ! (healthyOf updated ns ! p)
                   = (if rnd (k + p) < 0.5
                      then (updated ! (healthyOf updated ns ! p))\<lparr>state := Aware\<rparr>
                      else updated ! (healthyOf updated ns ! p)))
           \<and> (\<forall>m<length updated. m \<notin> set (healthyOf updated ns) \<longrightarrow> out ! m = updated ! m)"
  using assms
proof (induction ns arbitrary: updated k)
  case Nil
  then show ?case by (simp add: healthyOf_def)
next
  case (Cons nId rest)
  have nId: "nId < length updated" "nId \<notin> set rest" and d: "distinct rest"
    using Cons.prems by simp_all
  show ?case
  proof (cases "state (updated ! nId) = Healthy")
    case False
    from Cons.IH [of updated k] d Cons.prems(2)
    obtain out where o: "immunize rnd rest (updated, k) = Inr (out, k + length (healthyOf updated rest))"
      "length out = length updated"
      "\<forall>p<length (healthyOf updated rest).
          out ! (healthyOf updated rest ! p)
            = (if rnd (k + p) < 0.5
               then (updated ! (healthyOf updated rest ! p))\<lparr>state := Aware\<rparr>
               else updated ! (healthyOf updated rest ! p))"
      "\<forall>m<length updated. m \<notin> set (healthyOf updated rest) \<longrightarrow> out ! m = updated ! m"
      by auto
    have h: "healthyOf updated (nId # rest) = healthyOf updated rest"
      using False by (simp add: healthyOf_Cons)
    have "immunize rnd (nId # rest) (updated, k) = immunize rnd rest (updated, k)"
      using False nId(1) by simp
    with o show ?thesis unfolding h by auto
  next
    case True
    define u where "u = (if rnd k < 0.5 then updated[nId := (updated ! nId)\<lparr>state := Aware\<rparr>]
                         else updated)"
    have lu: "length u = length updated" by (simp add: u_def)
    have hu: "healthyOf u rest = healthyOf updated rest"
      using nId(2) by (simp add: u_def healthyOf_update)
    have nu: "u ! m = updated ! m" if "m \<noteq> nId" for m
      using that by (simp add: u_def)
    have un: "u ! nId = (if rnd k < 0.5 then (updated ! nId)\<lparr>state := Aware\<rparr> else updated ! nId)"
      using nId(1) by (simp add: u_def)
    have step: "immunize rnd (nId # rest) (updated, k) = immunize rnd rest (u, Suc k)"
      using True nId(1) by (simp add: u_def)
    from Cons.IH [of u "Suc k"] d Cons.prems(2) lu
    obtain out where o: "immunize rnd rest (u, Suc k) = Inr (out, Suc k + length (healthyOf u rest))"
      "length out = length u"
      "\<forall>p<length (healthyOf u rest).
          out ! (healthyOf u rest ! p)
            = (if rnd (Suc k + p) < 0.5
               then (u ! (healthyOf u rest ! p))\<lparr>state := Aware\<rparr>
               else u ! (healthyOf u rest ! p))"
      "\<forall>m<length u. m \<notin> set (healthyOf u rest) \<longrightarrow> out ! m = u ! m"
      by auto
    let ?hs = "healthyOf updated rest"
    have h: "healthyOf updated (nId # rest) = nId # ?hs"
      using True by (simp add: healthyOf_Cons)
    have notin: "nId \<notin> set ?hs"
      using nId(2) healthyOf_subset [of updated rest] by auto
    have a: "immunize rnd (nId # rest) (updated, k)
               = Inr (out, k + length (healthyOf updated (nId # rest)))"
      using step o(1) hu h by simp
    have b: "length out = length updated" using o(2) lu by simp
    have c: "out ! ((nId # ?hs) ! p)
               = (if rnd (k + p) < 0.5
                  then (updated ! ((nId # ?hs) ! p))\<lparr>state := Aware\<rparr>
                  else updated ! ((nId # ?hs) ! p))"
      if p: "p < length (nId # ?hs)" for p
    proof (cases p)
      case 0
      have "out ! nId = u ! nId"
        using o(4) nId(1) lu notin hu by simp
      with 0 un show ?thesis by simp
    next
      case (Suc q)
      with p have q: "q < length ?hs" by simp
      then have "?hs ! q \<in> set ?hs" by simp
      with notin have ne: "?hs ! q \<noteq> nId" by auto
      have "out ! (?hs ! q)
              = (if rnd (Suc k + q) < 0.5 then (u ! (?hs ! q))\<lparr>state := Aware\<rparr> else u ! (?hs ! q))"
        using o(3) q hu by simp
      with Suc nu [OF ne] show ?thesis by simp
    qed
    have e: "out ! m = updated ! m"
      if "m < length updated" and "m \<notin> set (nId # ?hs)" for m
    proof -
      from that have "m \<noteq> nId" "m \<notin> set (healthyOf u rest)" by (simp_all add: hu)
      with o(4) that(1) lu nu show ?thesis by simp
    qed
    show ?thesis
      unfolding h using a b c e h by auto
  qed
qed

lemma distinct_healthyOf: "distinct ids \<Longrightarrow> distinct (healthyOf nodes ids)"
  by (simp add: healthyOf_def)

text \<open>
  C9. On a well-formed array (neighbour ids in range, no node its own neighbour or listed
  twice) and a target in range, applyFactCheck returns; the target becomes recovered if
  and only if it is infected and is unchanged otherwise; the p-th healthy neighbour of the
  target becomes aware exactly when the p-th draw is below 0.5; every other node is
  unchanged.
\<close>

theorem fact_check_effect:
  "wellFormed nodes \<and> nodeId < length nodes \<longrightarrow>
     (\<exists>checked. applyFactCheck nodes nodeId rnd = Inr checked
        \<and> length checked = length nodes
        \<and> checked ! nodeId
            = (if state (nodes ! nodeId) = Infected then (nodes ! nodeId)\<lparr>state := Recovered\<rparr>
               else nodes ! nodeId)
        \<and> distinct (healthyOf nodes (connections (nodes ! nodeId)))
        \<and> (p < length (healthyOf nodes (connections (nodes ! nodeId))) \<longrightarrow>
             checked ! (healthyOf nodes (connections (nodes ! nodeId)) ! p)
               = (if rnd p < 0.5
                  then (nodes ! (healthyOf nodes (connections (nodes ! nodeId)) ! p))\<lparr>state := Aware\<rparr>
                  else nodes ! (healthyOf nodes (connections (nodes ! nodeId)) ! p)))
        \<and> (m < length nodes \<and> m \<noteq> nodeId
             \<and> m \<notin> set (healthyOf nodes (connections (nodes ! nodeId)))
             \<longrightarrow> checked ! m = nodes ! m))"
proof
  assume a: "wellFormed nodes \<and> nodeId < length nodes"
  let ?conns = "connections (nodes ! nodeId)"
  let ?hs = "healthyOf nodes ?conns"
  define u where "u = (if state (nodes ! nodeId) = Infected
                       then nodes[nodeId := (nodes ! nodeId)\<lparr>state := Recovered\<rparr>] else nodes)"
  from a have wf: "distinct ?conns" "nodeId \<notin> set ?conns" "\<forall>j\<in>set ?conns. j < length nodes"
    unfolding wellFormed_def by blast+
  have lu: "length u = length nodes" by (simp add: u_def)
  have hu: "healthyOf u ?conns = ?hs"
    using wf(2) by (simp add: u_def healthyOf_update)
  have nu: "u ! j = nodes ! j" if "j \<noteq> nodeId" for j
    using that by (simp add: u_def)
  have un: "u ! nodeId = (if state (nodes ! nodeId) = Infected
                          then (nodes ! nodeId)\<lparr>state := Recovered\<rparr> else nodes ! nodeId)"
    using a by (simp add: u_def)
  have notin: "nodeId \<notin> set ?hs"
    using wf(2) healthyOf_subset [of nodes ?conns] by auto
  from immunize_spec [of ?conns u rnd 0] wf(1,3) lu
  obtain out where o: "immunize rnd ?conns (u, 0) = Inr (out, 0 + length (healthyOf u ?conns))"
    "length out = length u"
    "\<forall>q<length (healthyOf u ?conns).
        out ! (healthyOf u ?conns ! q)
          = (if rnd (0 + q) < 0.5 then (u ! (healthyOf u ?conns ! q))\<lparr>state := Aware\<rparr>
             else u ! (healthyOf u ?conns ! q))"
    "\<forall>j<length u. j \<notin> set (healthyOf u ?conns) \<longrightarrow> out ! j = u ! j"
    by auto
  have r: "applyFactCheck nodes nodeId rnd = Inr out"
    using a o(1) by (simp add: applyFactCheck_def Let_def u_def)
  have t: "out ! nodeId = u ! nodeId"
    using o(4) a lu notin hu by simp
  have n: "out ! (?hs ! p) = (if rnd p < 0.5 then (nodes ! (?hs ! p))\<lparr>state := Aware\<rparr>
                              else nodes ! (?hs ! p))"
    if p: "p < length ?hs"
  proof -
    from p have "?hs ! p \<in> set ?hs" by simp
    with notin have "?hs ! p \<noteq> nodeId" by auto
    then have "u ! (?hs ! p) = nodes ! (?hs ! p)" by (rule nu)
    with o(3) p hu show ?thesis by simp
  qed
  have e: "out ! m = nodes ! m" if "m < length nodes" and "m \<noteq> nodeId" and "m \<notin> set ?hs"
    using o(4) that lu hu nu by simp
  show "\<exists>checked. applyFactCheck nodes nodeId rnd = Inr checked
        \<and> length checked = length nodes
        \<and> checked ! nodeId
            = (if state (nodes ! nodeId) = Infected then (nodes ! nodeId)\<lparr>state := Recovered\<rparr>
               else nodes ! nodeId)
        \<and> distinct ?hs
        \<and> (p < length ?hs \<longrightarrow>
             checked ! (?hs ! p)
               = (if rnd p < 0.5 then (nodes ! (?hs ! p))\<lparr>state := Aware\<rparr> else nodes ! (?hs ! p)))
        \<and> (m < length nodes \<and> m \<noteq> nodeId \<and> m \<notin> set ?hs \<longrightarrow> checked ! m = nodes ! m)"
  proof (intro exI conjI impI)
    show "applyFactCheck nodes nodeId rnd = Inr out" by (rule r)
    show "length out = length nodes" using o(2) lu by simp
    show "out ! nodeId = (if state (nodes ! nodeId) = Infected
                          then (nodes ! nodeId)\<lparr>state := Recovered\<rparr> else nodes ! nodeId)"
      using t un by simp
    show "distinct ?hs" using wf(1) by (rule distinct_healthyOf)
    show "out ! (?hs ! p) = (if rnd p < 0.5 then (nodes ! (?hs ! p))\<lparr>state := Aware\<rparr>
                             else nodes ! (?hs ! p))" if "p < length ?hs"
      using that by (rule n)
    show "out ! m = nodes ! m" if "m < length nodes \<and> m \<noteq> nodeId \<and> m \<notin> set ?hs"
      using that e by simp
  qed
qed

lemma wellFormed_triple: "wellFormed tripleNodes"
  by (simp add: wellFormed_def tripleNodes_def testNode_def less_Suc_eq numeral_3_eq_3)

lemma applyFactCheck_triple:
  "applyFactCheck tripleNodes 0 zeroDraws
     = Inr [testNode 0 Recovered 0 [1], testNode 1 Aware (- 1) [0, 2], testNode 2 Healthy (- 1) [1]]"
  by (simp add: applyFactCheck_def tripleNodes_def testNode_def zeroDraws_def)

lemma healthyOf_triple: "healthyOf tripleNodes (connections (tripleNodes ! 0)) = [1]"
  by (simp add: healthyOf_def tripleNodes_def testNode_def)

theorem fact_check_effect_witness:
  "wellFormed tripleNodes \<and> 0 < length tripleNodes
   \<and> applyFactCheck tripleNodes 0 zeroDraws
       = Inr [testNode 0 Recovered 0 [1], testNode 1 Aware (- 1) [0, 2],
              testNode 2 Healthy (- 1) [1]]
   \<and> healthyOf tripleNodes (connections (tripleNodes ! 0)) = [1]
   \<and> (0::nat) < length [1::nat] \<and> zeroDraws 0 < 0.5
   \<and> 2 < length tripleNodes \<and> (2::nat) \<noteq> 0 \<and> (2::nat) \<notin> set [1]
   \<and> (\<exists>checked. applyFactCheck tripleNodes 0 zeroDraws = Inr checked
         \<and> checked ! 0 = (tripleNodes ! 0)\<lparr>state := Recovered\<rparr>
         \<and> checked ! 1 = (tripleNodes ! 1)\<lparr>state := Aware\<rparr>
         \<and> checked ! 2 = tripleNodes ! 2)"
proof -
  have l: "0 < length tripleNodes" "2 < length tripleNodes"
    and s: "state (tripleNodes ! 0) = Infected"
    by (simp_all add: tripleNodes_def testNode_def)
  have z: "zeroDraws 0 < 0.5" by (simp add: zeroDraws_def)
  from fact_check_effect [of tripleNodes 0 zeroDraws 0 2] wellFormed_triple l
  obtain checked where c: "applyFactCheck tripleNodes 0 zeroDraws = Inr checked"
    "checked ! 0 = (if state (tripleNodes ! 0) = Infected
                    then (tripleNodes ! 0)\<lparr>state := Recovered\<rparr> else tripleNodes ! 0)"
    "0 < length (healthyOf tripleNodes (connections (tripleNodes ! 0))) \<longrightarrow>
       checked ! (healthyOf tripleNodes (connections (tripleNodes ! 0)) ! 0)
         = (if zeroDraws 0 < 0.5
            then (tripleNodes ! (healthyOf tripleNodes (connections (tripleNodes ! 0)) ! 0))\<lparr>state := Aware\<rparr>
            else tripleNodes ! (healthyOf tripleNodes (connections (tripleNodes ! 0)) ! 0))"
    "2 < length tripleNodes \<and> 2 \<noteq> (0::nat)
       \<and> 2 \<notin> set (healthyOf tripleNodes (connections (tripleNodes ! 0)))
       \<longrightarrow> checked ! 2 = tripleNodes ! 2"
    by auto
  have "checked ! 0 = (tripleNodes ! 0)\<lparr>state := Recovered\<rparr>"
    using c(2) s by simp
  moreover have "checked ! 1 = (tripleNodes ! 1)\<lparr>state := Aware\<rparr>"
    using c(3) z unfolding healthyOf_triple by simp
  moreover have "checked ! 2 = tripleNodes ! 2"
    using c(4) l unfolding healthyOf_triple by simp
  ultimately show ?thesis
    using c(1) wellFormed_triple l z applyFactCheck_triple healthyOf_triple by simp
qed

section \<open>Awareness campaign\<close>

lemma distinct_healthyNodes: "distinct (healthyNodes nodes)"
  by (simp add: healthyNodes_def)

lemma length_healthyNodes:
  "length (healthyNodes nodes) = healthy (getStats nodes tk)"
proof -
  have "length (healthyNodes nodes) = card (set (healthyNodes nodes))"
    by (simp add: distinct_card distinct_healthyNodes)
  also have "\<dots> = card {i. i < length nodes \<and> state (nodes ! i) = Healthy}"
    by (simp add: healthyNodes_set)
  also have "\<dots> = length (filter (\<lambda>n. state n = Healthy) nodes)"
    by (simp add: length_filter_conv_card)
  finally show ?thesis by (simp add: getStats_def)
qed

lemma selected_props:
  assumes "mset (shuffle (healthyNodes nodes)) = mset (healthyNodes nodes)"
  shows "length (selected nodes shuffle) = nat (campaignCount (length (healthyNodes nodes)))"
    and "distinct (selected nodes shuffle)"
    and "set (selected nodes shuffle) \<subseteq> set (healthyNodes nodes)"
proof -
  have len: "length (shuffle (healthyNodes nodes)) = length (healthyNodes nodes)"
    using assms by (rule mset_eq_length)
  have "nat (campaignCount (length (healthyNodes nodes))) \<le> length (healthyNodes nodes)"
    using campaignCount_le [of "length (healthyNodes nodes)"] by linarith
  moreover have "min (campaignCount (length (healthyNodes nodes))) (int (length (healthyNodes nodes)))
                   = campaignCount (length (healthyNodes nodes))"
    using campaignCount_le [of "length (healthyNodes nodes)"] by simp
  ultimately show "length (selected nodes shuffle) = nat (campaignCount (length (healthyNodes nodes)))"
    by (simp add: selected_def len)
  have "distinct (shuffle (healthyNodes nodes))"
    using mset_eq_imp_distinct_iff [of "shuffle (healthyNodes nodes)" "healthyNodes nodes"] assms distinct_healthyNodes by simp
  then show "distinct (selected nodes shuffle)"
    by (simp add: selected_def)
  have "set (selected nodes shuffle) \<subseteq> set (shuffle (healthyNodes nodes))"
    unfolding selected_def by (rule set_take_subset)
  then show "set (selected nodes shuffle) \<subseteq> set (healthyNodes nodes)"
    using mset_eq_setD [of "shuffle (healthyNodes nodes)" "healthyNodes nodes"] assms by simp
qed

lemma campaign_healthy_set:
  assumes "mset (shuffle (healthyNodes nodes)) = mset (healthyNodes nodes)"
  shows "{i. i < length nodes \<and> state (applyAwarenessCampaign nodes shuffle ! i) = Healthy}
           = set (healthyNodes nodes) - set (selected nodes shuffle)"
  by (auto simp: applyAwarenessCampaign_nth healthyNodes_set split: if_splits)

lemma campaign_aware_set:
  assumes "mset (shuffle (healthyNodes nodes)) = mset (healthyNodes nodes)"
  shows "{i. i < length nodes \<and> state (applyAwarenessCampaign nodes shuffle ! i) = Aware}
           = {i. i < length nodes \<and> state (nodes ! i) = Aware} \<union> set (selected nodes shuffle)"
  using selected_props(3) [of shuffle nodes, OF assms]
  by (auto simp: applyAwarenessCampaign_nth healthyNodes_set split: if_splits)

lemma campaign_healthy_count:
  assumes "mset (shuffle (healthyNodes nodes)) = mset (healthyNodes nodes)"
  shows "healthy (getStats (applyAwarenessCampaign nodes shuffle) tk)
           = healthy (getStats nodes tk) - nat (campaignCount (healthy (getStats nodes tk)))"
proof -
  have "healthy (getStats (applyAwarenessCampaign nodes shuffle) tk)
          = card {i. i < length nodes \<and> state (applyAwarenessCampaign nodes shuffle ! i) = Healthy}"
    by (simp add: getStats_def length_filter_conv_card applyAwarenessCampaign_length)
  also have "\<dots> = card (set (healthyNodes nodes) - set (selected nodes shuffle))"
    by (simp only: campaign_healthy_set [of shuffle nodes, OF assms])
  also have "\<dots> = card (set (healthyNodes nodes)) - card (set (selected nodes shuffle))"
    using selected_props(3) [of shuffle nodes, OF assms] by (simp add: card_Diff_subset)
  also have "\<dots> = length (healthyNodes nodes) - length (selected nodes shuffle)"
    using selected_props(2) [of shuffle nodes, OF assms] by (simp add: distinct_card distinct_healthyNodes)
  finally show ?thesis
    using selected_props(1) [of shuffle nodes, OF assms] length_healthyNodes [of nodes tk] by simp
qed

lemma campaign_aware_count:
  assumes "mset (shuffle (healthyNodes nodes)) = mset (healthyNodes nodes)"
  shows "aware (getStats (applyAwarenessCampaign nodes shuffle) tk)
           = aware (getStats nodes tk) + nat (campaignCount (healthy (getStats nodes tk)))"
proof -
  have disj: "{i. i < length nodes \<and> state (nodes ! i) = Aware} \<inter> set (selected nodes shuffle) = {}"
    using selected_props(3) [of shuffle nodes, OF assms] by (auto simp: healthyNodes_set)
  have "aware (getStats (applyAwarenessCampaign nodes shuffle) tk)
          = card {i. i < length nodes \<and> state (applyAwarenessCampaign nodes shuffle ! i) = Aware}"
    by (simp add: getStats_def length_filter_conv_card applyAwarenessCampaign_length)
  also have "\<dots> = card ({i. i < length nodes \<and> state (nodes ! i) = Aware}
                          \<union> set (selected nodes shuffle))"
    by (simp only: campaign_aware_set [of shuffle nodes, OF assms])
  also have "\<dots> = card {i. i < length nodes \<and> state (nodes ! i) = Aware}
                      + card (set (selected nodes shuffle))"
    using disj by (simp add: card_Un_disjoint)
  also have "\<dots> = aware (getStats nodes tk) + length (selected nodes shuffle)"
    using selected_props(2) [of shuffle nodes, OF assms]
    by (simp add: distinct_card getStats_def length_filter_conv_card)
  finally show ?thesis
    using selected_props(1) [of shuffle nodes, OF assms] length_healthyNodes [of nodes tk] by simp
qed

lemma campaign_noop:
  assumes "mset (shuffle (healthyNodes nodes)) = mset (healthyNodes nodes)"
    and "healthyNodes nodes = []"
  shows "applyAwarenessCampaign nodes shuffle = nodes"
proof -
  have "shuffle (healthyNodes nodes) = []"
    using assms by simp
  then show ?thesis by (simp add: applyAwarenessCampaign_def Let_def)
qed

lemma selected_prefix:
  "selected nodes shuffle = take (length (selected nodes shuffle)) (shuffle (healthyNodes nodes))"
  unfolding selected_def by (simp add: min_def)

text \<open>
  C10. When the random sort returns a permutation of the healthy nodes, with h the number
  of healthy nodes of the input, applyAwarenessCampaign makes aware the first ceil(0.2 * h)
  nodes of the shuffled healthy nodes: they are distinct and healthy, every other node is
  unchanged, the healthy count goes down and the aware count goes up by ceil(0.2 * h), and
  with h = 0 the array is returned as it is.
\<close>

theorem awareness_campaign:
  "mset (shuffle (healthyNodes nodes)) = mset (healthyNodes nodes) \<longrightarrow>
     length (healthyNodes nodes) = healthy (getStats nodes tk)
     \<and> length (selected nodes shuffle) = nat \<lceil>real (healthy (getStats nodes tk)) * 0.2\<rceil>
     \<and> selected nodes shuffle
          = take (length (selected nodes shuffle)) (shuffle (healthyNodes nodes))
     \<and> distinct (selected nodes shuffle)
     \<and> (m \<in> set (selected nodes shuffle) \<longrightarrow> m < length nodes \<and> state (nodes ! m) = Healthy)
     \<and> length (applyAwarenessCampaign nodes shuffle) = length nodes
     \<and> (m < length nodes \<longrightarrow>
          applyAwarenessCampaign nodes shuffle ! m
            = (if m \<in> set (selected nodes shuffle) then (nodes ! m)\<lparr>state := Aware\<rparr>
               else nodes ! m))
     \<and> healthy (getStats (applyAwarenessCampaign nodes shuffle) tk)
          = healthy (getStats nodes tk) - nat \<lceil>real (healthy (getStats nodes tk)) * 0.2\<rceil>
     \<and> aware (getStats (applyAwarenessCampaign nodes shuffle) tk)
          = aware (getStats nodes tk) + nat \<lceil>real (healthy (getStats nodes tk)) * 0.2\<rceil>
     \<and> (healthy (getStats nodes tk) = 0 \<longrightarrow> applyAwarenessCampaign nodes shuffle = nodes)"
proof
  assume a: "mset (shuffle (healthyNodes nodes)) = mset (healthyNodes nodes)"
  note sp = selected_props [of shuffle nodes, OF a]
  have h: "length (healthyNodes nodes) = healthy (getStats nodes tk)"
    by (rule length_healthyNodes)
  have c: "nat \<lceil>real (healthy (getStats nodes tk)) * 0.2\<rceil>
             = nat (campaignCount (healthy (getStats nodes tk)))"
    by (simp add: campaignCount_def)
  have sel: "m < length nodes \<and> state (nodes ! m) = Healthy" if "m \<in> set (selected nodes shuffle)"
    using that sp(3) by (auto simp: healthyNodes_set)
  have noop: "applyAwarenessCampaign nodes shuffle = nodes" if "healthy (getStats nodes tk) = 0"
  proof -
    from that h have "healthyNodes nodes = []" by simp
    with a show ?thesis by (rule campaign_noop)
  qed
  show "length (healthyNodes nodes) = healthy (getStats nodes tk)
     \<and> length (selected nodes shuffle) = nat \<lceil>real (healthy (getStats nodes tk)) * 0.2\<rceil>
     \<and> selected nodes shuffle
          = take (length (selected nodes shuffle)) (shuffle (healthyNodes nodes))
     \<and> distinct (selected nodes shuffle)
     \<and> (m \<in> set (selected nodes shuffle) \<longrightarrow> m < length nodes \<and> state (nodes ! m) = Healthy)
     \<and> length (applyAwarenessCampaign nodes shuffle) = length nodes
     \<and> (m < length nodes \<longrightarrow>
          applyAwarenessCampaign nodes shuffle ! m
            = (if m \<in> set (selected nodes shuffle) then (nodes ! m)\<lparr>state := Aware\<rparr>
               else nodes ! m))
     \<and> healthy (getStats (applyAwarenessCampaign nodes shuffle) tk)
          = healthy (getStats nodes tk) - nat \<lceil>real (healthy (getStats nodes tk)) * 0.2\<rceil>
     \<and> aware (getStats (applyAwarenessCampaign nodes shuffle) tk)
          = aware (getStats nodes tk) + nat \<lceil>real (healthy (getStats nodes tk)) * 0.2\<rceil>
     \<and> (healthy (getStats nodes tk) = 0 \<longrightarrow> applyAwarenessCampaign nodes shuffle = nodes)"
    unfolding c
  proof (intro conjI impI)
    show "length (healthyNodes nodes) = healthy (getStats nodes tk)" by (rule h)
    show "length (selected nodes shuffle) = nat (campaignCount (healthy (getStats nodes tk)))"
      using sp(1) h by simp
    show "selected nodes shuffle
            = take (length (selected nodes shuffle)) (shuffle (healthyNodes nodes))"
      by (rule selected_prefix)
    show "distinct (selected nodes shuffle)" by (rule sp(2))
    show "m < length nodes" if "m \<in> set (selected nodes shuffle)"
      using sel that by simp
    show "state (nodes ! m) = Healthy" if "m \<in> set (selected nodes shuffle)"
      using sel that by simp
    show "length (applyAwarenessCampaign nodes shuffle) = length nodes"
      by (rule applyAwarenessCampaign_length)
    show "applyAwarenessCampaign nodes shuffle ! m
            = (if m \<in> set (selected nodes shuffle) then (nodes ! m)\<lparr>state := Aware\<rparr>
               else nodes ! m)" if "m < length nodes"
      using that by (rule applyAwarenessCampaign_nth)
    show "healthy (getStats (applyAwarenessCampaign nodes shuffle) tk)
            = healthy (getStats nodes tk) - nat (campaignCount (healthy (getStats nodes tk)))"
      using a by (rule campaign_healthy_count)
    show "aware (getStats (applyAwarenessCampaign nodes shuffle) tk)
            = aware (getStats nodes tk) + nat (campaignCount (healthy (getStats nodes tk)))"
      using a by (rule campaign_aware_count)
    show "applyAwarenessCampaign nodes shuffle = nodes" if "healthy (getStats nodes tk) = 0"
      using that by (rule noop)
  qed
qed

lemma healthyNodes_triple: "healthyNodes tripleNodes = [1, 2]"
  by (simp add: healthyNodes_def tripleNodes_def testNode_def upt_rec)

lemma selected_triple: "selected tripleNodes id = [1]"
  by (simp add: selected_def healthyNodes_triple campaignCount_div)

theorem awareness_campaign_witness:
  "mset (id (healthyNodes tripleNodes)) = mset (healthyNodes tripleNodes)
   \<and> healthy (getStats tripleNodes 0) = 2
   \<and> selected tripleNodes id = [1]
   \<and> length (selected tripleNodes id) = nat \<lceil>real (healthy (getStats tripleNodes 0)) * 0.2\<rceil>
   \<and> (1::nat) \<in> set (selected tripleNodes id) \<and> state (tripleNodes ! 1) = Healthy
   \<and> 1 < length tripleNodes
   \<and> applyAwarenessCampaign tripleNodes id ! 1 = (tripleNodes ! 1)\<lparr>state := Aware\<rparr>
   \<and> 2 < length tripleNodes
   \<and> applyAwarenessCampaign tripleNodes id ! 2 = tripleNodes ! 2
   \<and> healthy (getStats (applyAwarenessCampaign tripleNodes id) 0) = 1
   \<and> mset (id (healthyNodes [testNode 0 Infected 0 []])) = mset (healthyNodes [testNode 0 Infected 0 []])
   \<and> healthy (getStats [testNode 0 Infected 0 []] 0) = 0
   \<and> applyAwarenessCampaign [testNode 0 Infected 0 []] id = [testNode 0 Infected 0 []]"
proof -
  have h: "healthy (getStats tripleNodes 0) = 2"
    by (simp add: getStats_def tripleNodes_def testNode_def)
  have l: "1 < length tripleNodes" "2 < length tripleNodes"
    by (simp_all add: tripleNodes_def)
  have z: "healthy (getStats [testNode 0 Infected 0 []] 0) = 0"
    by (simp add: getStats_def testNode_def)
  have p: "mset (id (healthyNodes tripleNodes)) = mset (healthyNodes tripleNodes)"
    and q: "mset (id (healthyNodes [testNode 0 Infected 0 []]))
              = mset (healthyNodes [testNode 0 Infected 0 []])"
    by simp_all
  have s1: "(1::nat) \<in> set (selected tripleNodes id)"
    and s2: "(2::nat) \<notin> set (selected tripleNodes id)"
    by (simp_all add: selected_triple)
  note w1 = awareness_campaign [of id tripleNodes 0 1, THEN mp, OF p]
  note w2 = awareness_campaign [of id tripleNodes 0 2, THEN mp, OF p]
  note w3 = awareness_campaign [of id "[testNode 0 Infected 0 []]" 0 0, THEN mp, OF q]
  from w1 have "length (selected tripleNodes id)
                  = nat \<lceil>real (healthy (getStats tripleNodes 0)) * 0.2\<rceil>"
    by blast
  then have c: "nat \<lceil>real (healthy (getStats tripleNodes 0)) * 0.2\<rceil> = 1"
    by (simp add: selected_triple)
  from w1 s1 have a1: "state (tripleNodes ! 1) = Healthy" by blast
  from w1 l(1) have "applyAwarenessCampaign tripleNodes id ! 1
      = (if 1 \<in> set (selected tripleNodes id) then (tripleNodes ! 1)\<lparr>state := Aware\<rparr>
         else tripleNodes ! 1)"
    by blast
  with s1 have a2: "applyAwarenessCampaign tripleNodes id ! 1 = (tripleNodes ! 1)\<lparr>state := Aware\<rparr>"
    by simp
  from w2 l(2) have "applyAwarenessCampaign tripleNodes id ! 2
      = (if 2 \<in> set (selected tripleNodes id) then (tripleNodes ! 2)\<lparr>state := Aware\<rparr>
         else tripleNodes ! 2)"
    by blast
  with s2 have a3: "applyAwarenessCampaign tripleNodes id ! 2 = tripleNodes ! 2"
    by simp
  from w1 have "healthy (getStats (applyAwarenessCampaign tripleNodes id) 0)
      = healthy (getStats tripleNodes 0) - nat \<lceil>real (healthy (getStats tripleNodes 0)) * 0.2\<rceil>"
    by blast
  then have a4: "healthy (getStats (applyAwarenessCampaign tripleNodes id) 0) = 1"
    unfolding c h by simp
  from w3 z have a5: "applyAwarenessCampaign [testNode 0 Infected 0 []] id = [testNode 0 Infected 0 []]"
    by blast
  have a6: "length (selected tripleNodes id)
              = nat \<lceil>real (healthy (getStats tripleNodes 0)) * 0.2\<rceil>"
    unfolding c by (simp add: selected_triple)
  show ?thesis
    by (intro conjI p q h l z s1 a1 a2 a3 a4 a5 a6 selected_triple)
qed

section \<open>The operations return on well-formed input\<close>

lemma seedLoop_returns:
  "\<forall>i\<in>set idxs. i < length shuffled \<and> shuffled ! i < length nodes \<Longrightarrow>
     \<exists>out. seedLoop shuffled idxs nodes = Inr out"
  by (induction shuffled idxs nodes rule: seedLoop.induct) simp_all

lemma generateNetwork_returns:
  assumes "0 \<le> nodeCount cfg" and "initialInfected cfg \<le> nodeCount cfg"
    and "mset (shuffle [0..<nat (nodeCount cfg)]) = mset [0..<nat (nodeCount cfg)]"
  shows "\<exists>nodes edges. generateNetwork cfg width height rnd shuffle = Inr (nodes, edges)"
proof -
  let ?n = "nat (nodeCount cfg)"
  obtain ns es k where e:
    "edgeLoop rnd cfg (sqrt (width * width + height * height)) [0..<?n]
       (placeNodes rnd width height ?n, [], 2 * ?n) = (ns, es, k)"
    by (metis prod_cases3)
  have len: "length ns = ?n"
    using edgeLoop_length [of rnd cfg "sqrt (width * width + height * height)" "[0..<?n]"
        "(placeNodes rnd width height ?n, [], 2 * ?n)"] e by simp
  have sl: "length (shuffle [0..<?n]) = ?n"
    using mset_eq_length [OF assms(3)] by simp
  have ss: "set (shuffle [0..<?n]) = {0..<?n}"
    using mset_eq_setD [OF assms(3)] by simp
  have "\<forall>i\<in>set [0..<nat (initialInfected cfg)].
          i < length (shuffle [0..<?n]) \<and> shuffle [0..<?n] ! i < length ns"
  proof
    fix i
    assume "i \<in> set [0..<nat (initialInfected cfg)]"
    with assms(2) have i: "i < length (shuffle [0..<?n])" using sl by simp
    then have "shuffle [0..<?n] ! i \<in> set (shuffle [0..<?n])" by (rule nth_mem)
    with ss len i show "i < length (shuffle [0..<?n]) \<and> shuffle [0..<?n] ! i < length ns"
      by simp
  qed
  then obtain out where
    "seedLoop (shuffle [0..<?n]) [0..<nat (initialInfected cfg)] ns = Inr out"
    using seedLoop_returns by blast
  with e assms(1) show ?thesis
    by (simp add: generateNetwork_def Let_def)
qed

lemma spread_returns:
  "\<forall>j\<in>set ns. j < length (fst s) \<Longrightarrow> \<exists>s'. spread rnd cfg tk ns s = Inr s'"
  by (induction rnd cfg tk ns s rule: spread.induct) simp_all

lemma tickNode_returns:
  assumes "\<forall>j\<in>set (connections (fst s ! i)). j < length (fst s)"
  shows "\<exists>s'. tickNode rnd cfg tk i s = Inr s'"
proof -
  obtain updated k where s: "s = (updated, k)" by (cases s)
  from spread_returns [of "connections (updated ! i)" s rnd cfg tk] assms s
  obtain s' where "spread rnd cfg tk (connections (updated ! i)) (updated, k) = Inr s'"
    by auto
  then show ?thesis
    by (cases s') (simp add: tickNode_def s)
qed

lemma tickNode_connections:
  assumes "tickNode rnd cfg tk i s = Inr s'" and "m < length (fst s)" and "i < length (fst s)"
  shows "connections (fst s' ! m) = connections (fst s ! m)"
  using tickNode_nodes [OF assms] by (auto simp: infectStep_def recoverStep_def)

lemma tickLoop_returns:
  "\<forall>m<length (fst s). \<forall>j\<in>set (connections (fst s ! m)). j < length (fst s) \<Longrightarrow>
   \<forall>i\<in>set idxs. i < length (fst s) \<Longrightarrow>
     \<exists>s'. tickLoop rnd cfg tk idxs s = Inr s'"
proof (induction idxs arbitrary: s)
  case Nil
  then show ?case by simp
next
  case (Cons i rest)
  from Cons.prems have "\<forall>j\<in>set (connections (fst s ! i)). j < length (fst s)" by auto
  then obtain s1 where t: "tickNode rnd cfg tk i s = Inr s1"
    using tickNode_returns by blast
  have len: "length (fst s1) = length (fst s)" by (rule tickNode_length [OF t])
  have "\<forall>m<length (fst s1). \<forall>j\<in>set (connections (fst s1 ! m)). j < length (fst s1)"
    using Cons.prems tickNode_connections [OF t] len by simp
  moreover have "\<forall>i\<in>set rest. i < length (fst s1)"
    using Cons.prems(2) len by simp
  ultimately obtain s' where "tickLoop rnd cfg tk rest s1 = Inr s'"
    using Cons.IH by blast
  with t show ?case by simp
qed

lemma simulationTick_returns:
  assumes "wellFormed nodes"
  shows "\<exists>ticked. simulationTick nodes cfg tk rnd = Inr ticked"
proof -
  have "\<forall>m<length nodes. \<forall>j\<in>set (connections (nodes ! m)). j < length nodes"
    using assms unfolding wellFormed_def by blast
  then obtain s' where "tickLoop rnd cfg tk [0..<length nodes] (nodes, 0) = Inr s'"
    using tickLoop_returns [of "(nodes, 0)" "[0..<length nodes]" rnd cfg tk] by auto
  then show ?thesis
    by (cases s') (simp add: simulationTick_def)
qed

end
